theory Spec2Isabelle
  imports Main
begin

section \<open>Text\<close>

text \<open>
  A Python \<open>str\<close> is a sequence of Unicode code points, so it is modelled as a list of
  code points. ASCII literals of the source are written with \<open>asc\<close>; the Japanese
  literals are written as their code points.
\<close>

type_synonym ustring = "nat list"

definition asc :: "string \<Rightarrow> ustring" where
  "asc s = map of_char s"

text \<open>The placeholder \<open>U+FF0D\<close> (full-width hyphen-minus) written for blank cells.\<close>

definition placeholder :: ustring where
  "placeholder = [0xFF0D]"

text \<open>The markers of the total row (\<open>U+7DCF U+8A08\<close> and \<open>U+5408 U+8A08\<close>) and of the
  total column (\<open>U+8A08\<close>).\<close>

definition soukei :: ustring where
  "soukei = [0x7DCF, 0x8A08]"

definition goukei :: ustring where
  "goukei = [0x5408, 0x8A08]"

definition kei :: ustring where
  "kei = [0x8A08]"

text \<open>Python's \<open>p in s\<close> on strings: \<open>p\<close> occurs in \<open>s\<close> as a contiguous run.\<close>

fun starts_with :: "'a list \<Rightarrow> 'a list \<Rightarrow> bool" where
  "starts_with [] s = True"
| "starts_with (a # p) [] = False"
| "starts_with (a # p) (b # s) = (a = b \<and> starts_with p s)"

fun is_sub :: "'a list \<Rightarrow> 'a list \<Rightarrow> bool" where
  "is_sub p [] = (p = [])"
| "is_sub p (b # s) = (starts_with p (b # s) \<or> is_sub p s)"

text \<open>\<open>s.replace(',', '')\<close>\<close>

definition remove_commas :: "ustring \<Rightarrow> ustring" where
  "remove_commas s = filter (\<lambda>c. c \<noteq> 44) s"

section \<open>Numbers\<close>

text \<open>
  A Python \<open>float\<close> is an IEEE double. A finite double is the dyadic rational
  \<open>m * 2 ^ e\<close>, kept exactly as \<open>Fin m e\<close> (the sign of a zero is dropped: the program
  never shows it). The model does not bound \<open>m\<close> and \<open>e\<close>, so every statement about
  \<open>Fin m e\<close> holds in particular for the doubles.
\<close>

datatype pyfloat = Fin int int | PInf | NInf | NaN

text \<open>\<open>num.is_integer()\<close>\<close>

fun is_integer :: "pyfloat \<Rightarrow> bool" where
  "is_integer (Fin m e) = (0 \<le> e \<or> \<bar>m\<bar> mod 2 ^ nat (- e) = 0)"
| "is_integer PInf = False"
| "is_integer NInf = False"
| "is_integer NaN = False"

text \<open>\<open>int(num)\<close>, truncating toward zero; the program calls it on integral values only.\<close>

fun int_of_float :: "pyfloat \<Rightarrow> int" where
  "int_of_float (Fin m e) =
     (if 0 \<le> e then m * 2 ^ nat e else sgn m * (\<bar>m\<bar> div 2 ^ nat (- e)))"
| "int_of_float PInf = 0"
| "int_of_float NInf = 0"
| "int_of_float NaN = 0"

text \<open>\<open>n.bit_length()\<close>\<close>

fun bit_length :: "nat \<Rightarrow> nat" where
  "bit_length n = (if n = 0 then 0 else Suc (bit_length (n div 2)))"

text \<open>\<open>a / 2 ^ k\<close> rounded to the nearest integer, ties to even.\<close>

definition round_half_even :: "nat \<Rightarrow> nat \<Rightarrow> nat" where
  "round_half_even a k =
     (let q = a div 2 ^ k;
          r = a mod 2 ^ k
      in if 2 ^ k < 2 * r \<or> (2 * r = 2 ^ k \<and> odd q) then q + 1 else q)"

text \<open>
  \<open>float(str(n))\<close> for a Python \<open>int\<close>: the nearest double, ties to the even
  significand of 53 bits, and infinity from \<open>2 ^ 1024\<close> on (parsing text never raises
  OverflowError). An \<open>int\<close> of more than 4300 digits, for which recent versions of
  Python refuse \<open>str\<close>, is not among the cell values considered.
\<close>

definition float_of_int_text :: "int \<Rightarrow> pyfloat" where
  "float_of_int_text n =
     (let a = nat \<bar>n\<bar>;
          k = bit_length a - 53;
          q = round_half_even a k
      in if 2 ^ 1024 \<le> q * 2 ^ k then (if n < 0 then NInf else PInf)
         else Fin (sgn n * int q) (int k))"

text \<open>Decimal digits of a natural number, as \<open>str\<close> writes them.\<close>

fun dec :: "nat \<Rightarrow> ustring" where
  "dec n = (if n < 10 then [48 + n] else dec (n div 10) @ [48 + n mod 10])"

declare dec.simps [simp del]
declare bit_length.simps [simp del]

text \<open>\<open>str(n)\<close> for a Python \<open>int\<close>\<close>

definition int_str :: "int \<Rightarrow> ustring" where
  "int_str n = (if n < 0 then [45] else []) @ dec (nat \<bar>n\<bar>)"

text \<open>
  The \<open>,\<close> option of the format mini-language: a comma before every group of three
  digits, counted from the right. \<open>commas_rev\<close> works on the reversed digits.
\<close>

fun commas_rev :: "ustring \<Rightarrow> ustring" where
  "commas_rev (a # b # c # d # s) = a # b # c # 44 # commas_rev (d # s)"
| "commas_rev s = s"

definition grouped :: "ustring \<Rightarrow> ustring" where
  "grouped s = rev (commas_rev (rev s))"

text \<open>\<open>f"{n:,}"\<close> for a Python \<open>int\<close>\<close>

definition fmt_int :: "int \<Rightarrow> ustring" where
  "fmt_int n = (if n < 0 then [45] else []) @ grouped (dec (nat \<bar>n\<bar>))"

text \<open>
  The number of tenths that the correctly rounded \<open>.1f\<close> conversion prints for
  \<open>a / 2 ^ k\<close>: \<open>a * 10 / 2 ^ k\<close> rounded to the nearest integer, ties to even.
\<close>

definition tenths :: "nat \<Rightarrow> nat \<Rightarrow> nat" where
  "tenths a k = round_half_even (a * 10) k"

text \<open>\<open>f"{num:,.1f}"\<close> for a Python \<open>float\<close>\<close>

fun fmt_float1 :: "pyfloat \<Rightarrow> ustring" where
  "fmt_float1 (Fin m e) =
     (let t = (if 0 \<le> e then nat \<bar>m\<bar> * 2 ^ nat e * 10 else tenths (nat \<bar>m\<bar>) (nat (- e)))
      in (if m < 0 then [45] else []) @ grouped (dec (t div 10)) @ [46] @ dec (t mod 10))"
| "fmt_float1 PInf = asc ''inf''"
| "fmt_float1 NInf = asc ''-inf''"
| "fmt_float1 NaN = asc ''nan''"

section \<open>Cells\<close>

text \<open>The values a worksheet cell holds: empty, text, an integer, a float, a boolean.\<close>

datatype cell = CNone | CStr ustring | CInt int | CFloat pyfloat | CBool bool

text \<open>
  Two builtins of Python are parameters of the model: \<open>float(s)\<close> on a text \<open>s\<close>
  (\<open>None\<close> when it raises ValueError) and \<open>repr\<close> of a float.
\<close>

record pyrt =
  float_of_text :: "ustring \<Rightarrow> pyfloat option"
  repr_float :: "pyfloat \<Rightarrow> ustring"

text \<open>\<open>str(value)\<close>\<close>

fun py_str :: "pyrt \<Rightarrow> cell \<Rightarrow> ustring" where
  "py_str py CNone = asc ''None''"
| "py_str py (CStr s) = s"
| "py_str py (CInt n) = int_str n"
| "py_str py (CFloat x) = repr_float py x"
| "py_str py (CBool b) = (if b then asc ''True'' else asc ''False'')"

text \<open>Truth value of a cell, as \<open>if value:\<close> tests it.\<close>

fun truthy :: "cell \<Rightarrow> bool" where
  "truthy CNone = False"
| "truthy (CStr s) = (s \<noteq> [])"
| "truthy (CInt n) = (n \<noteq> 0)"
| "truthy (CFloat (Fin m e)) = (m \<noteq> 0)"
| "truthy (CFloat x) = True"
| "truthy (CBool b) = b"

text \<open>
  \<open>float(str(value).replace(',', ''))\<close>, with \<open>None\<close> for ValueError. The text of an
  \<open>int\<close> has no comma and parses to the nearest double; the \<open>repr\<close> of a float parses
  back to the same float; \<open>'True'\<close>, \<open>'False'\<close> and \<open>'None'\<close> do not parse.
\<close>

fun to_float :: "pyrt \<Rightarrow> cell \<Rightarrow> pyfloat option" where
  "to_float py CNone = None"
| "to_float py (CStr s) = float_of_text py (remove_commas s)"
| "to_float py (CInt n) = Some (float_of_int_text n)"
| "to_float py (CFloat x) = Some x"
| "to_float py (CBool b) = None"

text \<open>\<open>format_number(value)\<close>\<close>

definition format_number :: "pyrt \<Rightarrow> cell \<Rightarrow> ustring" where
  "format_number py v =
     (if v = CStr placeholder \<or> v = CStr [] \<or> v = CNone then placeholder
      else case to_float py v of
             Some num \<Rightarrow> if is_integer num then fmt_int (int_of_float num) else fmt_float1 num
           | None \<Rightarrow> py_str py v)"

section \<open>The loader\<close>

text \<open>
  A worksheet as openpyxl presents it: its extent and the value of the cell at a row and
  a column, both counted from 1. A workbook is the list of its sheets with their names,
  in the order of \<open>wb.sheetnames\<close>.
\<close>

record worksheet =
  max_row :: nat
  max_column :: nat
  cell_value :: "nat \<Rightarrow> nat \<Rightarrow> cell"

type_synonym workbook = "(ustring \<times> worksheet) list"

text \<open>
  A \<open>dict\<close> keeps its keys in the order of their first insertion, so it is an
  association list; assigning to a key that is present keeps the key and its place and
  replaces the value. \<open>eq\<close> is the equality of keys.
\<close>

fun dict_set :: "('k \<Rightarrow> 'k \<Rightarrow> bool) \<Rightarrow> 'k \<Rightarrow> 'v \<Rightarrow> ('k \<times> 'v) list \<Rightarrow> ('k \<times> 'v) list" where
  "dict_set eq k v [] = [(k, v)]"
| "dict_set eq k v ((k', v') # d) =
     (if eq k' k then (k', v) # d else (k', v') # dict_set eq k v d)"

text \<open>
  Equality of cell values as dictionary keys: texts by their characters, numbers (with
  \<open>True = 1\<close> and \<open>False = 0\<close>) by their value, an infinity with itself; a NaN of
  one cell is no key of another cell.
\<close>

fun num_of :: "cell \<Rightarrow> (int \<times> int) option" where
  "num_of (CInt n) = Some (n, 0)"
| "num_of (CBool b) = Some (if b then 1 else 0, 0)"
| "num_of (CFloat (Fin m e)) = Some (m, e)"
| "num_of c = None"

fun key_eq :: "cell \<Rightarrow> cell \<Rightarrow> bool" where
  "key_eq (CStr a) (CStr b) = (a = b)"
| "key_eq (CFloat PInf) (CFloat PInf) = True"
| "key_eq (CFloat NInf) (CFloat NInf) = True"
| "key_eq a b =
     (case (num_of a, num_of b) of
        (Some (m1, e1), Some (m2, e2)) \<Rightarrow>
          m1 * 2 ^ nat (e1 - min e1 e2) = m2 * 2 ^ nat (e2 - min e1 e2)
      | _ \<Rightarrow> False)"

text \<open>The record \<open>read_excel_data\<close> builds for one sheet.\<close>

record sheet_data =
  years :: "ustring list"
  prefectures :: "(cell \<times> ustring list) list"
  total_row :: "ustring list option"

text \<open>\<open>range(2, ws.max_column + 1)\<close>\<close>

definition data_columns :: "worksheet \<Rightarrow> nat list" where
  "data_columns ws = [2 ..< max_column ws + 1]"

text \<open>The header loop: the text of every header cell that is true, in column order.\<close>

definition header_years :: "pyrt \<Rightarrow> worksheet \<Rightarrow> ustring list" where
  "header_years py ws =
     map (py_str py) (filter truthy (map (cell_value ws 1) (data_columns ws)))"

text \<open>The entry of one cell in \<open>row_data\<close>.\<close>

definition cell_text :: "pyrt \<Rightarrow> cell \<Rightarrow> ustring" where
  "cell_text py v = (if v = CNone \<or> v = CStr [] then placeholder else format_number py v)"

definition row_data :: "pyrt \<Rightarrow> worksheet \<Rightarrow> nat \<Rightarrow> ustring list" where
  "row_data py ws row = map (\<lambda>col. cell_text py (cell_value ws row col)) (data_columns ws)"

text \<open>\<open>'\<dots>' in str(pref_name) or '\<dots>' in str(pref_name)\<close> with the two markers.\<close>

definition is_total_label :: "pyrt \<Rightarrow> cell \<Rightarrow> bool" where
  "is_total_label py pref_name =
     (is_sub soukei (py_str py pref_name) \<or> is_sub goukei (py_str py pref_name))"

text \<open>One turn of the row loop on the pair \<open>(prefectures, total_row)\<close>.\<close>

definition row_step ::
  "pyrt \<Rightarrow> worksheet \<Rightarrow> (cell \<times> ustring list) list \<times> ustring list option \<Rightarrow> nat \<Rightarrow>
   (cell \<times> ustring list) list \<times> ustring list option" where
  "row_step py ws st row =
     (let pref_name = cell_value ws row 1
      in if \<not> truthy pref_name then st
         else if is_total_label py pref_name then (fst st, Some (row_data py ws row))
         else (dict_set key_eq pref_name (row_data py ws row) (fst st), snd st))"

definition read_sheet :: "pyrt \<Rightarrow> worksheet \<Rightarrow> sheet_data" where
  "read_sheet py ws =
     (let st = foldl (row_step py ws) ([], None) [2 ..< max_row ws + 1]
      in \<lparr>years = header_years py ws, prefectures = fst st, total_row = snd st\<rparr>)"

text \<open>\<open>read_excel_data\<close>, on the workbook that \<open>load_workbook\<close> returned.\<close>

definition read_excel_data :: "pyrt \<Rightarrow> workbook \<Rightarrow> (ustring \<times> sheet_data) list" where
  "read_excel_data py wb =
     foldl (\<lambda>data (sheet_name, ws). dict_set (=) sheet_name (read_sheet py ws) data) [] wb"

section \<open>The renderer\<close>

text \<open>
  \<open>html_template\<close> is built by appending one piece of text after another; the model keeps
  the pieces in a list, in the order they are appended, and the document is their
  concatenation. Every piece below is one \<open>html_template += \<dots>\<close> of the source.
\<close>

datatype pyerror = IndexError | WorkbookError | OSError

definition active_class :: "nat \<Rightarrow> ustring" where
  "active_class i = (if i = 0 then asc ''active'' else [])"

definition tab_button :: "nat \<Rightarrow> ustring \<Rightarrow> ustring" where
  \<open>tab_button i tab_name =
     asc ''            <button class="tab '' @ active_class i
     @ asc ''" onclick="showTab(event, '' @ [39] @ tab_name @ [39] @ asc '')">''
     @ tab_name @ asc ''</button>'' @ [10]\<close>

definition panel_comment :: "ustring \<Rightarrow> ustring" where
  \<open>panel_comment tab_name =
     asc ''        <!-- '' @ tab_name @ [0x30BF, 0x30D6] @ asc '' ('' @ tab_name
     @ asc '' Tab) -->'' @ [10]\<close>

definition panel_open :: "nat \<Rightarrow> ustring \<Rightarrow> ustring" where
  \<open>panel_open i tab_name =
     asc ''        <div id="'' @ tab_name @ asc ''" class="tab-content '' @ active_class i
     @ asc ''">'' @ [10]\<close>

definition panel_heading :: "ustring \<Rightarrow> ustring \<Rightarrow> ustring \<Rightarrow> ustring" where
  \<open>panel_heading tab_name first_year last_year =
     asc ''            <h2>'' @ tab_name @ asc '' ''
     @ [0x90FD, 0x9053, 0x5E9C, 0x770C, 0x5225, 0x88DC, 0x52A9, 0x91D1, 0x4EA4, 0x4ED8,
        0x53F0, 0x6570, 0x4E00, 0x89A7, 0x8868, 0xFF08]
     @ first_year @ [0xFF5E] @ last_year @ [0x5E74, 0x5EA6, 0xFF09] @ asc ''</h2>'' @ [10]\<close>

definition th_plain :: "ustring \<Rightarrow> ustring" where
  \<open>th_plain year = asc ''                            <th>'' @ year @ asc ''</th>'' @ [10]\<close>

definition th_total :: "ustring \<Rightarrow> ustring" where
  \<open>th_total year =
     asc ''                            <th class="total-col">'' @ year @ asc ''</th>'' @ [10]\<close>

definition td_plain :: "ustring \<Rightarrow> ustring" where
  \<open>td_plain v = asc ''                            <td>'' @ v @ asc ''</td>'' @ [10]\<close>

definition td_total :: "ustring \<Rightarrow> ustring" where
  \<open>td_total v =
     asc ''                            <td class="total-col">'' @ v @ asc ''</td>'' @ [10]\<close>

text \<open>The header cell of one year: \<open>if year == '\<dots>' or '\<dots>' in str(year)\<close>.\<close>

definition year_header :: "ustring \<Rightarrow> ustring" where
  "year_header year = (if year = kei \<or> is_sub kei year then th_total year else th_plain year)"

text \<open>
  \<open>for j, value in enumerate(values)\<close>: the cell at index \<open>j\<close> of a row of \<open>n\<close> values,
  with the comparison \<open>j == n - 1\<close> on Python's integers.
\<close>

definition value_cell :: "nat \<Rightarrow> nat \<Rightarrow> ustring \<Rightarrow> ustring" where
  "value_cell n j v = (if int j = int n - 1 then td_total v else td_plain v)"

definition value_cells :: "ustring list \<Rightarrow> ustring list" where
  "value_cells vs = map (\<lambda>(j, v). value_cell (length vs) j v) (enumerate 0 vs)"

definition tr_open :: ustring where
  \<open>tr_open = asc ''                        <tr>'' @ [10]\<close>

definition tr_total_open :: ustring where
  \<open>tr_total_open = asc ''                        <tr class="total-row">'' @ [10]\<close>

definition tr_close :: ustring where
  \<open>tr_close = asc ''                        </tr>'' @ [10]\<close>

definition td_label :: "ustring \<Rightarrow> ustring" where
  \<open>td_label name = asc ''                            <td>'' @ name @ asc ''</td>'' @ [10]\<close>

text \<open>The pieces of one row of \<open>prefectures\<close>.\<close>

definition pref_row :: "pyrt \<Rightarrow> cell \<times> ustring list \<Rightarrow> ustring list" where
  "pref_row py kv =
     [tr_open, td_label (py_str py (fst kv))] @ value_cells (snd kv) @ [tr_close]"

text \<open>
  The pieces of the total row; \<open>if tab_data.get('total')\<close> is false for \<open>None\<close> and for
  the empty list.
\<close>

definition total_block :: "sheet_data \<Rightarrow> ustring list" where
  "total_block tab_data =
     (case total_row tab_data of
        None \<Rightarrow> []
      | Some t \<Rightarrow>
          if t = [] then []
          else [tr_total_open, td_label soukei] @ value_cells t @ [tr_close])"

text \<open>
  The pieces of the panel of one sheet. \<open>tab_data["years"][0]\<close> and
  \<open>tab_data["years"][-1]\<close> raise IndexError on the empty list.
\<close>

definition tab_panel :: "pyrt \<Rightarrow> nat \<Rightarrow> ustring \<Rightarrow> sheet_data \<Rightarrow> pyerror + ustring list" where
  \<open>tab_panel py i tab_name tab_data =
     (if years tab_data = [] then Inl IndexError
      else Inr
        ([panel_comment tab_name,
          panel_open i tab_name,
          panel_heading tab_name (hd (years tab_data)) (last (years tab_data)),
          asc ''            <div class="table-wrapper">'' @ [10],
          asc ''                <table>'' @ [10],
          asc ''                    <thead>'' @ [10],
          tr_open,
          asc ''                            <th>'' @ [0x90FD, 0x9053, 0x5E9C, 0x770C]
            @ asc ''</th>'' @ [10]]
         @ map year_header (years tab_data)
         @ [tr_close,
            asc ''                    </thead>'' @ [10],
            asc ''                    <tbody>'' @ [10]]
         @ concat (map (pref_row py) (prefectures tab_data))
         @ total_block tab_data
         @ [asc ''                    </tbody>'' @ [10],
            asc ''                </table>'' @ [10],
            asc ''            </div>'' @ [10],
            asc ''        </div>'' @ [10, 10]]))\<close>

text \<open>The loop over \<open>enumerate(data.items())\<close>, from index \<open>i\<close>; the first error ends it.\<close>

fun tab_panels :: "pyrt \<Rightarrow> nat \<Rightarrow> (ustring \<times> sheet_data) list \<Rightarrow> pyerror + ustring list" where
  "tab_panels py i [] = Inr []"
| "tab_panels py i (kv # rest) =
     (case tab_panel py i (fst kv) (snd kv) of
        Inl e \<Rightarrow> Inl e
      | Inr ps \<Rightarrow>
          (case tab_panels py (Suc i) rest of
             Inl e \<Rightarrow> Inl e
           | Inr ps' \<Rightarrow> Inr (ps @ ps')))"

text \<open>
  What surrounds the program: the file system, and the two literal blocks of the
  template, which hold no logic. \<open>template_head title subtitle\<close> is the text first
  assigned to \<open>html_template\<close> (style sheet, navigation, title, subtitle and the notes
  with today's date), \<open>template_script\<close> the closing script block.
\<close>

record env =
  path_exists :: "ustring \<Rightarrow> bool"
  load_workbook :: "ustring \<Rightarrow> workbook option"
  can_write :: "ustring \<Rightarrow> bool"
  template_head :: "ustring \<Rightarrow> ustring \<Rightarrow> ustring"
  template_script :: ustring

text \<open>The file system operations of a run, in order.\<close>

datatype fs_op = Stat ustring | Load ustring | Write ustring ustring

text \<open>The text of \<open>html_template\<close> when the loops are done, or the error raised.\<close>

definition html_document ::
  "env \<Rightarrow> pyrt \<Rightarrow> (ustring \<times> sheet_data) list \<Rightarrow> ustring \<Rightarrow> ustring \<Rightarrow> pyerror + ustring" where
  \<open>html_document ev py data page_title page_subtitle =
     (case tab_panels py 0 data of
        Inl e \<Rightarrow> Inl e
      | Inr ps \<Rightarrow>
          Inr (concat
            ([template_head ev page_title page_subtitle]
             @ map (\<lambda>(i, tab_name). tab_button i tab_name) (enumerate 0 (map fst data))
             @ [asc ''        </div>'' @ [10, 10]]
             @ ps
             @ [template_script ev])))\<close>

text \<open>
  \<open>generate_html\<close>: the lines printed, the file system operations, and the error
  raised, if any.
\<close>

definition generate_html ::
  "env \<Rightarrow> pyrt \<Rightarrow> (ustring \<times> sheet_data) list \<Rightarrow> ustring \<Rightarrow> ustring \<Rightarrow> ustring \<Rightarrow>
   ustring list \<times> fs_op list \<times> pyerror option" where
  \<open>generate_html ev py data output_file page_title page_subtitle =
     (case html_document ev py data page_title page_subtitle of
        Inl e \<Rightarrow> ([], [], Some e)
      | Inr html \<Rightarrow>
          if \<not> can_write ev output_file then ([], [], Some OSError)
          else
            ([[0x2705] @ asc '' HTML''
                @ [0x30D5, 0x30A1, 0x30A4, 0x30EB, 0x3092, 0x751F, 0x6210, 0x3057, 0x307E,
                   0x3057, 0x305F]
                @ asc '': '' @ output_file,
              asc ''   Generated HTML file: '' @ output_file],
             [Write output_file html],
             None))\<close>

section \<open>The command line\<close>

datatype outcome = Exit nat | Raised pyerror

record run =
  stdout :: "ustring list"
  fs_ops :: "fs_op list"
  outcome :: outcome

definition usage :: "ustring list" where
  \<open>usage =
     [[0x4F7F, 0x3044, 0x65B9] @ asc '' (Usage):'',
      asc ''  python excel_to_html_converter.py <excel_file> <output_file>'',
      [10, 0x4F8B] @ asc '' (Examples):'',
      asc ''  python excel_to_html_converter.py koufu_data.xlsx koufu.html'',
      asc ''  python excel_to_html_converter.py koufu2_data.xlsx koufu2.html'',
      asc ''  python excel_to_html_converter.py koufu3_data.xlsx koufu3.html'']\<close>

definition page_title :: ustring where
  "page_title =
     [0x90FD, 0x9053, 0x5E9C, 0x770C, 0x5225, 0x88DC, 0x52A9, 0x91D1, 0x4EA4, 0x4ED8,
      0x72B6, 0x6CC1]"

definition page_subtitle :: "ustring \<Rightarrow> ustring" where
  "page_subtitle output_file =
     (if is_sub (asc ''koufu2'') output_file then
        [0x5916, 0x90E8, 0x7D66, 0x96FB, 0x5668, 0xFF08] @ asc ''V2L'' @ [0xFF09, 0xFF65]
        @ asc ''V2H'' @ [0x5145, 0x653E, 0x96FB, 0x8A2D, 0x5099]
      else if is_sub (asc ''koufu3'') output_file then [0x5145, 0x96FB, 0x8A2D, 0x5099]
      else asc ''EV'' @ [0x30FB] @ asc ''PHEV'' @ [0x30FB] @ asc ''FCV''
           @ [0x30FB, 0x539F, 0x4ED8] @ asc ''EV'')"

definition not_found_lines :: "ustring \<Rightarrow> ustring list" where
  "not_found_lines excel_file =
     [[0x274C] @ asc '' '' @ [0x30A8, 0x30E9, 0x30FC] @ asc '': ''
        @ [0x30D5, 0x30A1, 0x30A4, 0x30EB, 0x304C, 0x898B, 0x3064, 0x304B, 0x308A, 0x307E,
           0x305B, 0x3093]
        @ asc '': '' @ excel_file,
      asc ''   Error: File not found: '' @ excel_file]"

definition reading_lines :: "ustring \<Rightarrow> ustring list" where
  "reading_lines excel_file =
     [[0x1F4D6] @ asc '' ''
        @ [0x30A8, 0x30AF, 0x30BB, 0x30EB, 0x30D5, 0x30A1, 0x30A4, 0x30EB, 0x3092, 0x8AAD,
           0x307F, 0x8FBC, 0x3093, 0x3067, 0x3044, 0x307E, 0x3059]
        @ asc '': '' @ excel_file,
      asc ''   Reading Excel file: '' @ excel_file]"

definition loaded_lines :: "(ustring \<times> sheet_data) list \<Rightarrow> ustring list" where
  "loaded_lines data =
     [[0x1F4CA] @ asc '' '' @ int_str (int (length data))
        @ [0x500B, 0x306E, 0x30B7, 0x30FC, 0x30C8, 0x3092, 0x8AAD, 0x307F, 0x8FBC, 0x307F,
           0x307E, 0x3057, 0x305F],
      asc ''   Loaded '' @ int_str (int (length data)) @ asc '' sheets'']
     @ map (\<lambda>sheet_name. asc ''   - '' @ sheet_name) (map fst data)
     @ [[10, 0x1F528] @ asc '' HTML''
          @ [0x3092, 0x751F, 0x6210, 0x3057, 0x3066, 0x3044, 0x307E, 0x3059] @ asc ''...'',
        asc ''   Generating HTML...'']"

definition done_lines :: "ustring list" where
  "done_lines =
     [[10, 0x2728] @ asc '' '' @ [0x5B8C, 0x4E86, 0x3057, 0x307E, 0x3057, 0x305F] @ asc ''!'',
      asc ''   Done!'']"

text \<open>
  \<open>main\<close> on \<open>sys.argv\<close>. An exception that nothing catches ends the run as
  \<open>Raised\<close>; \<open>sys.exit(1)\<close> and the normal end are \<open>Exit 1\<close> and \<open>Exit 0\<close>.
\<close>

definition main :: "env \<Rightarrow> pyrt \<Rightarrow> ustring list \<Rightarrow> run" where
  "main ev py argv =
     (if length argv < 3 then \<lparr>stdout = usage, fs_ops = [], outcome = Exit 1\<rparr>
      else
        let excel_file = argv ! 1;
            output_file = argv ! 2
        in if \<not> path_exists ev excel_file then
             \<lparr>stdout = not_found_lines excel_file, fs_ops = [Stat excel_file],
              outcome = Exit 1\<rparr>
           else
             (case load_workbook ev excel_file of
                None \<Rightarrow>
                  \<lparr>stdout = reading_lines excel_file,
                   fs_ops = [Stat excel_file, Load excel_file],
                   outcome = Raised WorkbookError\<rparr>
              | Some wb \<Rightarrow>
                  let data = read_excel_data py wb;
                      g = generate_html ev py data output_file page_title
                            (page_subtitle output_file)
                  in \<lparr>stdout =
                        reading_lines excel_file @ loaded_lines data @ fst g
                        @ (if snd (snd g) = None then done_lines else []),
                      fs_ops = [Stat excel_file, Load excel_file] @ fst (snd g),
                      outcome =
                        (case snd (snd g) of None \<Rightarrow> Exit 0 | Some e \<Rightarrow> Raised e)\<rparr>))"

section \<open>Notions of the specification\<close>

text \<open>
  A safe identifier token: not empty, made of ASCII letters, digits, \<open>-\<close>, \<open>_\<close> and
  characters beyond ASCII, and not starting with a digit.
\<close>

definition ident_char :: "nat \<Rightarrow> bool" where
  "ident_char c =
     ((48 \<le> c \<and> c \<le> 57) \<or> (65 \<le> c \<and> c \<le> 90) \<or> (97 \<le> c \<and> c \<le> 122)
      \<or> c = 45 \<or> c = 95 \<or> 128 \<le> c)"

definition safe_identifier :: "ustring \<Rightarrow> bool" where
  "safe_identifier s = (s \<noteq> [] \<and> list_all ident_char s \<and> \<not> (48 \<le> hd s \<and> hd s \<le> 57))"

text \<open>What follows the first occurrence of \<open>p\<close> in a text.\<close>

fun after_first :: "ustring \<Rightarrow> ustring \<Rightarrow> ustring option" where
  "after_first p [] = (if p = [] then Some [] else None)"
| "after_first p (c # s) =
     (if starts_with p (c # s) then Some (drop (length p) (c # s)) else after_first p s)"

text \<open>The value of the \<open>id\<close> attribute in a piece of markup: the text between the first
  \<open>id="\<close> and the next double quote.\<close>

definition id_attr :: "ustring \<Rightarrow> ustring option" where
  \<open>id_attr s = map_option (takeWhile (\<lambda>c. c \<noteq> 34)) (after_first (asc ''id="'') s)\<close>

text \<open>
  The rows the loader extracts from a worksheet (those whose first cell is true), the
  ones among them whose label holds a total marker, and the others.
\<close>

definition extracted_rows :: "worksheet \<Rightarrow> nat list" where
  "extracted_rows ws = filter (\<lambda>r. truthy (cell_value ws r 1)) [2 ..< max_row ws + 1]"

definition total_rows :: "pyrt \<Rightarrow> worksheet \<Rightarrow> nat list" where
  "total_rows py ws = filter (\<lambda>r. is_total_label py (cell_value ws r 1)) (extracted_rows ws)"

definition plain_rows :: "pyrt \<Rightarrow> worksheet \<Rightarrow> nat list" where
  "plain_rows py ws =
     filter (\<lambda>r. \<not> is_total_label py (cell_value ws r 1)) (extracted_rows ws)"

text \<open>Storing row \<open>r\<close> of a worksheet in the rows mapping under its label.\<close>

definition store_row ::
  "pyrt \<Rightarrow> worksheet \<Rightarrow> (cell \<times> ustring list) list \<Rightarrow> nat \<Rightarrow> (cell \<times> ustring list) list" where
  "store_row py ws d r = dict_set key_eq (cell_value ws r 1) (row_data py ws r) d"

text \<open>
  Digits grouped with separators: a text of decimal digits and commas that starts with
  a digit and in which, counting from the right, exactly every fourth character is a
  comma.
\<close>

definition is_digit :: "nat \<Rightarrow> bool" where
  "is_digit c = (48 \<le> c \<and> c \<le> 57)"

definition well_grouped :: "ustring \<Rightarrow> bool" where
  "well_grouped s =
     (s \<noteq> [] \<and> is_digit (hd s) \<and>
      (\<forall>i < length s. if (length s - i) mod 4 = 0 then s ! i = 44 else is_digit (s ! i)))"

section \<open>Sample inputs\<close>

text \<open>A run time in which no text parses as a number, and a file system with no file.\<close>

definition sample_py :: pyrt where
  "sample_py = \<lparr>float_of_text = (\<lambda>s. None), repr_float = (\<lambda>x. [])\<rparr>"

definition sample_env :: env where
  "sample_env =
     \<lparr>path_exists = (\<lambda>p. False), load_workbook = (\<lambda>p. None), can_write = (\<lambda>p. True),
      template_head = (\<lambda>t s. t @ s), template_script = []\<rparr>"

text \<open>The worksheet holding the rows \<open>g\<close>, the first row being the header.\<close>

definition grid :: "cell list list \<Rightarrow> worksheet" where
  "grid g =
     \<lparr>max_row = length g,
      max_column = foldr (\<lambda>r m. max (length r) m) g 1,
      cell_value =
        (\<lambda>r c. if 0 < r \<and> r \<le> length g \<and> 0 < c \<and> c \<le> length (g ! (r - 1))
               then g ! (r - 1) ! (c - 1) else CNone)\<rparr>"

text \<open>
  A worksheet with a gap in its header, an empty cell, a row without a label and two
  rows whose labels hold a total marker.
\<close>

definition sample_sheet :: worksheet where
  "sample_sheet =
     grid [[CStr (asc ''name''), CStr (asc ''2009''), CNone, CStr kei],
           [CStr (asc ''A''), CStr (asc ''596''), CNone, CStr (asc ''x'')],
           [CStr soukei, CStr (asc ''1''), CStr (asc ''2''), CStr (asc ''3'')],
           [CNone, CStr (asc ''7''), CStr (asc ''8''), CStr (asc ''9'')],
           [CStr (asc ''B''), CStr [], CStr placeholder, CStr (asc ''0'')],
           [CStr (65 # goukei), CStr (asc ''4''), CStr (asc ''5''), CStr (asc ''6'')]]"

text \<open>
  The sheet of the report: periods 2009, 2010 and the total column, one prefecture
  (\<open>U+5317 U+6D77 U+9053\<close>) and the total row.
\<close>

definition report_sheet :: worksheet where
  "report_sheet =
     grid [[CStr [0x90FD, 0x9053, 0x5E9C, 0x770C], CInt 2009, CInt 2010, CStr kei],
           [CStr [0x5317, 0x6D77, 0x9053], CInt 596, CInt 654, CInt 1250],
           [CStr soukei, CInt 596, CInt 654, CInt 1250]]"

definition sample_workbook :: workbook where
  "sample_workbook = [(asc ''EV'', sample_sheet), (asc ''FCV'', report_sheet)]"

text \<open>
  A run time that parses one text as Python does: \<open>float('9007199254740993.5')\<close> is
  \<open>9007199254740994.0\<close>, the nearest double, which is \<open>4503599627370497 * 2\<close>.
\<close>

definition parsing_py :: pyrt where
  "parsing_py =
     \<lparr>float_of_text =
        (\<lambda>s. if s = asc ''9007199254740993.5'' then Some (Fin 4503599627370497 1) else None),
      repr_float = (\<lambda>x. [])\<rparr>"

section \<open>Blank cells\<close>

text \<open>
  C8. A cell that is empty (\<open>None\<close>) or holds the empty text is formatted as the
  placeholder, by \<open>format_number\<close> and by the loader's cell branch alike; the placeholder
  is neither \<open>"0"\<close> nor the empty text, and the placeholder given as input comes back
  unchanged.
\<close>

theorem blank_cell_gives_placeholder:
  "format_number py CNone = placeholder \<and> format_number py (CStr []) = placeholder
   \<and> format_number py (CStr placeholder) = placeholder
   \<and> cell_text py CNone = placeholder \<and> cell_text py (CStr []) = placeholder
   \<and> cell_text py (CStr placeholder) = placeholder
   \<and> placeholder \<noteq> asc ''0'' \<and> placeholder \<noteq> []"
  by (simp add: format_number_def cell_text_def placeholder_def asc_def)

section \<open>Sheets without periods\<close>

lemma tab_panel_error: "tab_panel py i n d = Inl e \<Longrightarrow> e = IndexError"
  by (simp add: tab_panel_def split: if_splits)

lemma tab_panels_empty_years:
  "(name, d) \<in> set data \<Longrightarrow> years d = [] \<Longrightarrow> tab_panels py i data = Inl IndexError"
proof (induction data arbitrary: i)
  case Nil
  then show ?case by simp
next
  case (Cons kv rest)
  show ?case
  proof (cases "tab_panel py i (fst kv) (snd kv)")
    case (Inl e)
    then show ?thesis using tab_panel_error [OF Inl] by simp
  next
    case (Inr ps)
    then have "years (snd kv) \<noteq> []" by (auto simp: tab_panel_def split: if_splits)
    with Cons.prems have "(name, d) \<in> set rest" by auto
    from Cons.IH [OF this Cons.prems(2)] Inr show ?thesis by simp
  qed
qed

text \<open>
  C9. When some sheet of the input has no period, building the document fails with
  IndexError, and \<open>generate_html\<close> raises it: nothing is printed and nothing is written.
\<close>

theorem empty_years_raise_index_error:
  assumes "(name, d) \<in> set data" and "years d = []"
  shows "html_document ev py data title subtitle = Inl IndexError
         \<and> generate_html ev py data output_file title subtitle = ([], [], Some IndexError)"
  using tab_panels_empty_years [OF assms]
  by (simp add: html_document_def generate_html_def)

theorem empty_years_raise_index_error_witness:
  "generate_html sample_env sample_py
     [(asc ''EV'', \<lparr>years = [asc ''2009''], prefectures = [], total_row = None\<rparr>),
      (asc ''FCV'', \<lparr>years = [], prefectures = [], total_row = None\<rparr>)]
     (asc ''koufu.html'') page_title (page_subtitle (asc ''koufu.html''))
   = ([], [], Some IndexError)"
  using empty_years_raise_index_error
    [of "asc ''FCV''" "\<lparr>years = [], prefectures = [], total_row = None\<rparr>"
        "[(asc ''EV'', \<lparr>years = [asc ''2009''], prefectures = [], total_row = None\<rparr>),
          (asc ''FCV'', \<lparr>years = [], prefectures = [], total_row = None\<rparr>)]"
        sample_env sample_py page_title "page_subtitle (asc ''koufu.html'')"
        "asc ''koufu.html''"]
  by simp

section \<open>Number formatting\<close>

lemma dec_digits: "c \<in> set (dec n) \<Longrightarrow> is_digit c"
proof (induction n rule: dec.induct)
  case (1 n)
  show ?case
  proof (cases "n < 10")
    case True
    with "1.prems" show ?thesis by (simp add: dec.simps [of n] is_digit_def)
  next
    case False
    with "1.prems" have "c \<in> set (dec (n div 10)) \<or> c = 48 + n mod 10"
      by (auto simp: dec.simps [of n])
    then show ?thesis
    proof
      assume "c \<in> set (dec (n div 10))"
      with "1.IH" False show ?thesis by simp
    next
      assume "c = 48 + n mod 10"
      then show ?thesis by (simp add: is_digit_def)
    qed
  qed
qed

lemma dec_nonempty: "dec n \<noteq> []"
  by (simp add: dec.simps [of n])

lemma commas_rev_length: "length (commas_rev s) = length s + (length s - 1) div 3"
  by (induction s rule: commas_rev.induct) simp_all

lemma commas_rev_nth:
  "\<forall>c \<in> set s. is_digit c \<Longrightarrow> i < length (commas_rev s) \<Longrightarrow>
   (if i mod 4 = 3 then commas_rev s ! i = 44 else is_digit (commas_rev s ! i))"
proof (induction s arbitrary: i rule: commas_rev.induct)
  case (1 a b c d s)
  show ?case
  proof (cases "i < 4")
    case True
    then have "i = 0 \<or> i = 1 \<or> i = 2 \<or> i = 3" by arith
    with "1.prems"(1) show ?thesis by auto
  next
    case False
    then obtain j where j: "i = j + 4" by (metis add.commute le_Suc_ex not_less)
    have e: "commas_rev (a # b # c # d # s) ! i = commas_rev (d # s) ! j"
      by (simp add: j)
    from "1.prems" have "j < length (commas_rev (d # s))" by (simp add: j)
    moreover from "1.prems"(1) have "\<forall>c \<in> set (d # s). is_digit c" by simp
    ultimately have "if j mod 4 = 3 then commas_rev (d # s) ! j = 44
                     else is_digit (commas_rev (d # s) ! j)"
      by (rule "1.IH" [rotated])
    moreover have "i mod 4 = j mod 4" by (simp add: j)
    ultimately show ?thesis unfolding e by simp
  qed
qed (auto simp: nth_Cons' less_Suc_eq)

lemma commas_rev_filter: "44 \<notin> set s \<Longrightarrow> filter (\<lambda>c. c \<noteq> 44) (commas_rev s) = s"
  by (induction s rule: commas_rev.induct) auto

lemma digit_not_comma: "is_digit c \<Longrightarrow> c \<noteq> 44 \<and> c \<noteq> 46 \<and> c \<noteq> 45"
  by (simp add: is_digit_def)

lemma remove_commas_grouped:
  assumes "\<forall>c \<in> set s. is_digit c"
  shows "remove_commas (grouped s) = s"
proof -
  have "44 \<notin> set (rev s)" using assms digit_not_comma by auto
  then have "filter (\<lambda>c. c \<noteq> 44) (commas_rev (rev s)) = rev s" by (rule commas_rev_filter)
  then show ?thesis by (simp add: remove_commas_def grouped_def rev_filter [symmetric])
qed

lemma grp_len_mod: "0 < (n::nat) \<Longrightarrow> (n + (n - 1) div 3) mod 4 \<noteq> 0"
proof -
  assume "0 < n"
  define q where "q = (n - 1) div 3"
  define r where "r = (n - 1) mod 3"
  have "n - 1 = 3 * q + r" by (simp add: q_def r_def)
  with \<open>0 < n\<close> have n: "n = 3 * q + r + 1" by simp
  have r: "r < 3" by (simp add: r_def)
  have "n + (n - 1) div 3 = 4 * q + (r + 1)" using n q_def by simp
  moreover have "(4 * q + (r + 1)) mod 4 = r + 1" using r by simp
  ultimately show ?thesis by simp
qed

lemma suc_mod4: "(j mod 4 = 3) = (Suc j mod 4 = 0)"
  by (simp add: mod_Suc)

lemma well_grouped_grouped:
  assumes d: "\<forall>c \<in> set s. is_digit c" and ne: "s \<noteq> []"
  shows "well_grouped (grouped s)"
proof -
  let ?t = "commas_rev (rev s)"
  let ?n = "length s"
  have len: "length ?t = ?n + (?n - 1) div 3" by (simp add: commas_rev_length)
  have pos: "0 < ?n" using ne by simp
  have m: "length ?t mod 4 \<noteq> 0" unfolding len using pos by (rule grp_len_mod)
  have dr: "\<forall>c \<in> set (rev s). is_digit c" using d by simp
  have "if (length ?t - i) mod 4 = 0 then grouped s ! i = 44 else is_digit (grouped s ! i)"
    if i: "i < length ?t" for i
  proof -
    let ?j = "length ?t - Suc i"
    have j: "?j < length ?t" using i by simp
    have g: "grouped s ! i = ?t ! ?j" using i by (simp add: grouped_def rev_nth)
    have "Suc ?j = length ?t - i" using i by simp
    then have "(?j mod 4 = 3) = ((length ?t - i) mod 4 = 0)"
      using suc_mod4 [of ?j] by simp
    with commas_rev_nth [OF dr j] show ?thesis unfolding g by simp
  qed
  note nth = this
  have lg: "length (grouped s) = length ?t" by (simp add: grouped_def)
  have ne': "grouped s \<noteq> []" using ne len lg by (metis add_is_0 length_0_conv)
  then have "0 < length ?t" using lg by (metis length_greater_0_conv)
  from nth [OF this] m have "is_digit (grouped s ! 0)" by simp
  then have "is_digit (hd (grouped s))" using ne' by (simp add: hd_conv_nth)
  with ne' nth show ?thesis unfolding well_grouped_def lg by simp
qed

lemma bit_length_le: "n < 2 ^ k \<Longrightarrow> bit_length n \<le> k"
proof (induction k arbitrary: n)
  case 0
  then have "n = 0" by simp
  then show ?case by (simp add: bit_length.simps [of 0])
next
  case (Suc k)
  then have "n div 2 < 2 ^ k" by auto
  then have "bit_length (n div 2) \<le> k" by (rule Suc.IH)
  then show ?case by (simp add: bit_length.simps [of n])
qed

lemma round_half_even_0: "round_half_even a 0 = a"
  by (simp add: round_half_even_def)

lemma float_of_int_text_small:
  assumes "\<bar>n\<bar> < 2 ^ 53"
  shows "float_of_int_text n = Fin n 0"
proof -
  have a: "nat \<bar>n\<bar> < 2 ^ 53" using assms by (simp add: nat_less_iff)
  then have k: "bit_length (nat \<bar>n\<bar>) - 53 = 0" using bit_length_le [OF a] by simp
  have "nat \<bar>n\<bar> < (2::nat) ^ 1024"
    using a by (rule less_trans) simp
  moreover have "sgn n * int (nat \<bar>n\<bar>) = n" by (simp add: sgn_if)
  ultimately show ?thesis
    unfolding float_of_int_text_def Let_def k round_half_even_0 by simp
qed

lemma bit_length_2_53: "bit_length 9007199254740992 = 54"
  by (simp add: bit_length.simps)

lemma float_of_int_text_2_53:
  "float_of_int_text 9007199254740992 = Fin 4503599627370496 1"
  "float_of_int_text (- 9007199254740992) = Fin (- 4503599627370496) 1"
  unfolding float_of_int_text_def Let_def
  by (simp_all add: bit_length_2_53 round_half_even_def)

lemma float_of_int_text_exact:
  assumes "\<bar>n\<bar> \<le> 2 ^ 53"
  shows "is_integer (float_of_int_text n) \<and> int_of_float (float_of_int_text n) = n"
proof (cases "\<bar>n\<bar> < 2 ^ 53")
  case True
  then show ?thesis by (simp add: float_of_int_text_small)
next
  case False
  with assms have "n = 9007199254740992 \<or> n = - 9007199254740992" by auto
  then show ?thesis by (auto simp: float_of_int_text_2_53)
qed

lemma float_of_int_text_2_53_1:
  "float_of_int_text 9007199254740993 = Fin 4503599627370496 1"
  unfolding float_of_int_text_def Let_def
  by (simp add: bit_length.simps round_half_even_def)

lemma dec_all_digits: "\<forall>c \<in> set (dec n). is_digit c"
  using dec_digits by blast

lemma fmt_int_shape:
  "\<exists>body. fmt_int n = (if n < 0 then [45] else []) @ body
          \<and> well_grouped body \<and> remove_commas body = dec (nat \<bar>n\<bar>)"
  unfolding fmt_int_def
  using well_grouped_grouped [OF dec_all_digits dec_nonempty]
        remove_commas_grouped [OF dec_all_digits]
  by blast

lemma well_grouped_no_point: "well_grouped s \<Longrightarrow> 46 \<notin> set s"
proof
  assume w: "well_grouped s" and "46 \<in> set s"
  then obtain i where i: "i < length s" "s ! i = 46" by (auto simp: in_set_conv_nth)
  from w i(1) have "s ! i = 44 \<or> is_digit (s ! i)"
    by (auto simp: well_grouped_def split: if_splits)
  with i(2) show False by (simp add: is_digit_def)
qed

lemma fmt_int_no_point: "46 \<notin> set (fmt_int n)"
proof -
  obtain body where b: "fmt_int n = (if n < 0 then [45] else []) @ body" "well_grouped body"
    using fmt_int_shape by blast
  from well_grouped_no_point [OF b(2)] show ?thesis unfolding b(1) by simp
qed

lemma int_of_float_exact:
  assumes "is_integer (Fin m e)"
  shows "int_of_float (Fin m e) * 2 ^ nat (- e) = m * 2 ^ nat e"
proof (cases "0 \<le> e")
  case True
  then show ?thesis by simp
next
  case False
  with assms have d: "\<bar>m\<bar> mod 2 ^ nat (- e) = 0" by simp
  have "\<bar>m\<bar> div 2 ^ nat (- e) * 2 ^ nat (- e) + \<bar>m\<bar> mod 2 ^ nat (- e) = \<bar>m\<bar>"
    by (rule div_mult_mod_eq)
  with d have "\<bar>m\<bar> div 2 ^ nat (- e) * 2 ^ nat (- e) = \<bar>m\<bar>" by simp
  then have "sgn m * (\<bar>m\<bar> div 2 ^ nat (- e)) * 2 ^ nat (- e) = sgn m * \<bar>m\<bar>"
    by (simp add: mult.assoc)
  with False show ?thesis by (simp add: mult_sgn_abs)
qed

lemma format_number_integral:
  assumes "v \<noteq> CStr placeholder" "v \<noteq> CStr []" "v \<noteq> CNone"
    and "to_float py v = Some x" and "is_integer x"
  shows "format_number py v = fmt_int (int_of_float x)"
  using assms by (simp add: format_number_def)

lemma round_half_even_near:
  "2 * \<bar>int (round_half_even a k) * 2 ^ k - int a\<bar> \<le> 2 ^ k"
proof -
  define p :: nat where "p = 2 ^ k"
  define q where "q = a div p"
  define r where "r = a mod p"
  have a: "a = q * p + r" by (simp add: q_def r_def)
  have r: "r < p" by (simp add: r_def p_def)
  show ?thesis
  proof (cases "p < 2 * r \<or> (2 * r = p \<and> odd q)")
    case True
    then have t: "round_half_even a k = q + 1"
      by (simp add: round_half_even_def p_def q_def r_def Let_def)
    have "int (q + 1) * int p - int a = int p - int r"
      by (simp add: a algebra_simps)
    moreover have "2 * \<bar>int p - int r\<bar> \<le> int p" using True r by auto
    ultimately show ?thesis unfolding t by (simp add: p_def)
  next
    case False
    then have t: "round_half_even a k = q"
      by (simp add: round_half_even_def p_def q_def r_def Let_def)
    have "int q * int p - int a = - int r"
      by (simp add: a algebra_simps)
    moreover have "2 * \<bar>- int r\<bar> \<le> int p" using False by auto
    ultimately show ?thesis unfolding t by (simp add: p_def)
  qed
qed

lemma bit_length_bounds:
  "0 < n \<Longrightarrow> 2 ^ (bit_length n - 1) \<le> n \<and> n < 2 ^ bit_length n"
proof (induction n rule: bit_length.induct)
  case (1 n)
  show ?case
  proof (cases "n div 2 = 0")
    case True
    with "1.prems" have "n = 1" by (simp add: div_eq_0_iff)
    then show ?thesis by (simp add: bit_length.simps [of "Suc 0"] bit_length.simps [of 0])
  next
    case False
    then have pos: "0 < n div 2" by simp
    from "1.prems" have ne: "n \<noteq> 0" by simp
    from "1.IH" [OF ne pos]
    have ih: "2 ^ (bit_length (n div 2) - 1) \<le> n div 2" "n div 2 < 2 ^ bit_length (n div 2)"
      by simp_all
    have b: "bit_length n = Suc (bit_length (n div 2))"
      using ne by (simp add: bit_length.simps [of n])
    have "0 < bit_length (n div 2)" using pos by (simp add: bit_length.simps [of "n div 2"])
    then have e: "2 ^ (bit_length n - 1) = 2 * 2 ^ (bit_length (n div 2) - 1)"
      unfolding b by (cases "bit_length (n div 2)") simp_all
    have "2 * 2 ^ (bit_length (n div 2) - 1) \<le> 2 * (n div 2)" using ih(1) by simp
    also have "\<dots> \<le> n" by simp
    finally have l: "2 ^ (bit_length n - 1) \<le> n" unfolding e .
    have "n = 2 * (n div 2) + n mod 2" by simp
    then have "n < 2 * (n div 2) + 2" by linarith
    also have "\<dots> \<le> 2 * 2 ^ bit_length (n div 2)" using ih(2) by simp
    finally have "n < 2 ^ bit_length n" unfolding b by simp
    with l show ?thesis by simp
  qed
qed

lemma round_half_even_ge: "a div 2 ^ k \<le> round_half_even a k"
  by (simp add: round_half_even_def Let_def)

lemma float_of_int_text_cases:
  "float_of_int_text n =
     (if 2 ^ 1024 \<le> round_half_even (nat \<bar>n\<bar>) (bit_length (nat \<bar>n\<bar>) - 53)
                        * 2 ^ (bit_length (nat \<bar>n\<bar>) - 53)
      then (if n < 0 then NInf else PInf)
      else Fin (sgn n * int (round_half_even (nat \<bar>n\<bar>) (bit_length (nat \<bar>n\<bar>) - 53)))
               (int (bit_length (nat \<bar>n\<bar>) - 53)))"
  by (simp add: float_of_int_text_def Let_def)

lemma float_of_int_text_near:
  assumes "float_of_int_text n = Fin m e"
  shows "0 \<le> e \<and> 2 * \<bar>int_of_float (Fin m e) - n\<bar> \<le> 2 ^ (bit_length (nat \<bar>n\<bar>) - 53)"
proof -
  let ?a = "nat \<bar>n\<bar>"
  let ?k = "bit_length ?a - 53"
  let ?q = "round_half_even ?a ?k"
  from assms have m: "m = sgn n * int ?q" and e: "e = int ?k"
    unfolding float_of_int_text_cases by (simp_all split: if_splits)
  have near: "2 * \<bar>int ?q * 2 ^ ?k - int ?a\<bar> \<le> 2 ^ ?k" by (rule round_half_even_near)
  have v: "int_of_float (Fin m e) = sgn n * (int ?q * 2 ^ ?k)"
    by (simp add: m e)
  have sa: "sgn n * int ?a = n" by (simp add: sgn_if)
  have "sgn n * (int ?q * 2 ^ ?k - int ?a) = sgn n * (int ?q * 2 ^ ?k) - sgn n * int ?a"
    by (rule right_diff_distrib)
  then have d: "int_of_float (Fin m e) - n = sgn n * (int ?q * 2 ^ ?k - int ?a)"
    unfolding v sa by simp
  have "\<bar>sgn n * (int ?q * 2 ^ ?k - int ?a)\<bar> \<le> \<bar>int ?q * 2 ^ ?k - int ?a\<bar>"
    by (simp add: abs_mult sgn_if)
  then have "\<bar>int_of_float (Fin m e) - n\<bar> \<le> \<bar>int ?q * 2 ^ ?k - int ?a\<bar>"
    unfolding d .
  with near e show ?thesis by simp
qed

lemma float_of_int_text_overflow:
  assumes "2 ^ 1024 \<le> \<bar>n\<bar>"
  shows "float_of_int_text n = (if n < 0 then NInf else PInf)"
proof -
  let ?a = "nat \<bar>n\<bar>"
  let ?L = "bit_length ?a"
  let ?k = "?L - 53"
  have a: "(2::nat) ^ 1024 \<le> ?a" using assms by (simp add: le_nat_iff)
  then have pos: "0 < ?a" by (rule less_le_trans [rotated]) simp
  from bit_length_bounds [OF pos] have lo: "2 ^ (?L - 1) \<le> ?a" and hi: "?a < 2 ^ ?L"
    by simp_all
  from a hi have "(2::nat) ^ 1024 < 2 ^ ?L" by (rule le_less_trans)
  then have L: "1024 < ?L" by (rule power_less_imp_less_exp [rotated]) simp
  then have s: "?L - 1 = 52 + ?k" by simp
  have "(2::nat) ^ 52 * 2 ^ ?k \<le> ?a" using lo unfolding s by (simp add: power_add)
  then have "(2::nat) ^ 52 \<le> ?a div 2 ^ ?k" by (simp add: less_eq_div_iff_mult_less_eq)
  then have "(2::nat) ^ 52 \<le> round_half_even ?a ?k"
    using round_half_even_ge [of ?a ?k] by (rule order_trans)
  then have "(2::nat) ^ 52 * 2 ^ ?k \<le> round_half_even ?a ?k * 2 ^ ?k" by simp
  moreover have "(2::nat) ^ 1024 \<le> 2 ^ 52 * 2 ^ ?k"
  proof -
    have "(2::nat) ^ 1024 \<le> 2 ^ (52 + ?k)" using L by (intro power_increasing) simp_all
    then show ?thesis by (simp add: power_add)
  qed
  ultimately have "(2::nat) ^ 1024 \<le> round_half_even ?a ?k * 2 ^ ?k" by (rule order_trans [rotated])
  then show ?thesis unfolding float_of_int_text_cases by simp
qed

text \<open>
  C7, as amended. A cell whose number is an integer and a double (a float with an integral
  value, a text that parses to one, and every \<open>int\<close> up to \<open>2 ^ 53\<close> in absolute
  value) is formatted as the digits of that integer, grouped by commas in threes from
  the right, after the sign, with no decimal point. Any other \<open>int\<close> is first
  converted to a double. When that double is finite, it is an integer at most half a
  unit of the 53-bit significand away from the \<open>int\<close>, and its grouped digits
  are returned; otherwise, and always from \<open>2 ^ 1024\<close> on, the result is
  \<open>inf\<close> or \<open>-inf\<close>.
\<close>

theorem integers_format_grouped:
  "(v \<noteq> CStr placeholder \<and> v \<noteq> CStr [] \<and> v \<noteq> CNone
      \<and> to_float py v = Some (Fin m e) \<and> is_integer (Fin m e) \<longrightarrow>
      (\<exists>body. format_number py v = (if int_of_float (Fin m e) < 0 then [45] else []) @ body
          \<and> well_grouped body
          \<and> remove_commas body = dec (nat \<bar>int_of_float (Fin m e)\<bar>))
      \<and> 46 \<notin> set (format_number py v)
      \<and> int_of_float (Fin m e) * 2 ^ nat (- e) = m * 2 ^ nat e)
   \<and> (\<bar>n\<bar> \<le> 2 ^ 53 \<longrightarrow>
      (\<exists>body. format_number py (CInt n) = (if n < 0 then [45] else []) @ body
          \<and> well_grouped body \<and> remove_commas body = dec (nat \<bar>n\<bar>))
      \<and> 46 \<notin> set (format_number py (CInt n)))
   \<and> (float_of_int_text n = Fin m' e' \<longrightarrow>
      to_float py (CInt n) = Some (Fin m' e') \<and> is_integer (Fin m' e')
      \<and> (\<exists>body. format_number py (CInt n) =
                   (if int_of_float (Fin m' e') < 0 then [45] else []) @ body
            \<and> well_grouped body
            \<and> remove_commas body = dec (nat \<bar>int_of_float (Fin m' e')\<bar>))
      \<and> 46 \<notin> set (format_number py (CInt n))
      \<and> 2 * \<bar>int_of_float (Fin m' e') - n\<bar> \<le> 2 ^ (bit_length (nat \<bar>n\<bar>) - 53))
   \<and> ((\<forall>a b. float_of_int_text n \<noteq> Fin a b) \<longrightarrow>
      format_number py (CInt n) = (if n < 0 then asc ''-inf'' else asc ''inf''))
   \<and> (2 ^ 1024 \<le> \<bar>n\<bar> \<longrightarrow>
      format_number py (CInt n) = (if n < 0 then asc ''-inf'' else asc ''inf''))"
proof (intro conjI impI)
  assume a: "v \<noteq> CStr placeholder \<and> v \<noteq> CStr [] \<and> v \<noteq> CNone
      \<and> to_float py v = Some (Fin m e) \<and> is_integer (Fin m e)"
  then have f: "format_number py v = fmt_int (int_of_float (Fin m e))"
    by (simp add: format_number_integral)
  show "\<exists>body. format_number py v = (if int_of_float (Fin m e) < 0 then [45] else []) @ body
          \<and> well_grouped body
          \<and> remove_commas body = dec (nat \<bar>int_of_float (Fin m e)\<bar>)"
    unfolding f by (rule fmt_int_shape)
  show "46 \<notin> set (format_number py v)" unfolding f by (rule fmt_int_no_point)
  show "int_of_float (Fin m e) * 2 ^ nat (- e) = m * 2 ^ nat e"
    using a by (simp only: int_of_float_exact)
next
  assume n: "\<bar>n\<bar> \<le> 2 ^ 53"
  have "to_float py (CInt n) = Some (float_of_int_text n)" by simp
  with float_of_int_text_exact [OF n]
  have f: "format_number py (CInt n) = fmt_int n"
    by (simp add: format_number_integral)
  show "\<exists>body. format_number py (CInt n) = (if n < 0 then [45] else []) @ body
          \<and> well_grouped body \<and> remove_commas body = dec (nat \<bar>n\<bar>)"
    unfolding f by (rule fmt_int_shape)
  show "46 \<notin> set (format_number py (CInt n))" unfolding f by (rule fmt_int_no_point)
next
  assume x: "float_of_int_text n = Fin m' e'"
  have e: "0 \<le> e'"
    using float_of_int_text_near [OF x] by (rule conjunct1)
  have near: "2 * \<bar>int_of_float (Fin m' e') - n\<bar> \<le> 2 ^ (bit_length (nat \<bar>n\<bar>) - 53)"
    using float_of_int_text_near [OF x] by (rule conjunct2)
  show t: "to_float py (CInt n) = Some (Fin m' e')" by (simp add: x)
  show i: "is_integer (Fin m' e')" using e by simp
  have f: "format_number py (CInt n) = fmt_int (int_of_float (Fin m' e'))"
    using t i by (simp add: format_number_integral)
  show "\<exists>body. format_number py (CInt n) =
                   (if int_of_float (Fin m' e') < 0 then [45] else []) @ body
            \<and> well_grouped body
            \<and> remove_commas body = dec (nat \<bar>int_of_float (Fin m' e')\<bar>)"
    unfolding f by (rule fmt_int_shape)
  show "46 \<notin> set (format_number py (CInt n))" unfolding f by (rule fmt_int_no_point)
  show "2 * \<bar>int_of_float (Fin m' e') - n\<bar> \<le> 2 ^ (bit_length (nat \<bar>n\<bar>) - 53)"
    by (rule near)
next
  assume "\<forall>a b. float_of_int_text n \<noteq> Fin a b"
  then have "float_of_int_text n = (if n < 0 then NInf else PInf)"
    unfolding float_of_int_text_cases by (simp split: if_splits)
  then show "format_number py (CInt n) = (if n < 0 then asc ''-inf'' else asc ''inf'')"
    by (simp add: format_number_def)
next
  assume "2 ^ 1024 \<le> \<bar>n\<bar>"
  then have "float_of_int_text n = (if n < 0 then NInf else PInf)"
    by (rule float_of_int_text_overflow)
  then show "format_number py (CInt n) = (if n < 0 then asc ''-inf'' else asc ''inf'')"
    by (simp add: format_number_def)
qed

lemma fmt_int_1234567: "fmt_int 1234567 = asc ''1,234,567''"
  by (simp add: fmt_int_def grouped_def dec.simps asc_def)

lemma fmt_int_2_53: "fmt_int 9007199254740992 = asc ''9,007,199,254,740,992''"
  by (simp add: fmt_int_def grouped_def dec.simps asc_def)

theorem integers_format_grouped_witness:
  "format_number sample_py (CInt 1234567) = asc ''1,234,567''
   \<and> format_number sample_py (CFloat (Fin 2469134 (- 1))) = asc ''1,234,567''
   \<and> well_grouped (asc ''1,234,567'')
   \<and> remove_commas (asc ''1,234,567'') = dec 1234567
   \<and> format_number sample_py (CInt 9007199254740993) = asc ''9,007,199,254,740,992''
   \<and> well_grouped (asc ''9,007,199,254,740,992'')
   \<and> format_number sample_py (CInt (2 ^ 1024)) = asc ''inf''"
proof -
  have r: "\<bar>1234567 :: int\<bar> \<le> 2 ^ 53" by simp
  have f: "format_number sample_py (CInt 1234567) = asc ''1,234,567''"
    using float_of_int_text_exact [OF r]
    by (simp add: format_number_integral fmt_int_1234567)
  have g: "format_number sample_py (CFloat (Fin 2469134 (- 1))) = asc ''1,234,567''"
    by (simp add: format_number_def fmt_int_1234567)
  have i: "is_integer (Fin 2469134 (- 1))" "int_of_float (Fin 2469134 (- 1)) = 1234567"
    by simp_all
  from integers_format_grouped
         [of "CFloat (Fin 2469134 (- 1))" sample_py 2469134 "- 1" 1234567 0 0]
  have 1: "format_number sample_py (CInt 1234567) = asc ''1,234,567''
     \<and> format_number sample_py (CFloat (Fin 2469134 (- 1))) = asc ''1,234,567''
     \<and> well_grouped (asc ''1,234,567'')
     \<and> remove_commas (asc ''1,234,567'') = dec 1234567"
    unfolding f g i using r by simp
  have h: "format_number sample_py (CInt 9007199254740993) = asc ''9,007,199,254,740,992''"
    by (simp add: format_number_def float_of_int_text_2_53_1 fmt_int_2_53)
  have j: "int_of_float (Fin 4503599627370496 1) = 9007199254740992" by simp
  from integers_format_grouped
         [of CNone sample_py 0 0 9007199254740993 4503599627370496 1]
  have 2: "well_grouped (asc ''9,007,199,254,740,992'')"
    unfolding h j by (simp add: float_of_int_text_2_53_1)
  have b: "(2::int) ^ 1024 \<le> \<bar>2 ^ 1024\<bar>" by simp
  from integers_format_grouped [of CNone sample_py 0 0 "2 ^ 1024" 0 0] b
  have 3: "format_number sample_py (CInt (2 ^ 1024)) = asc ''inf''"
    by simp
  from 1 2 3 h show ?thesis by simp
qed

theorem integers_beyond_double_precision_counterexample:
  "format_number sample_py (CInt 9007199254740993) = asc ''9,007,199,254,740,992''
   \<and> remove_commas (asc ''9,007,199,254,740,992'') \<noteq> int_str 9007199254740993"
proof -
  have "fmt_int 9007199254740992 = asc ''9,007,199,254,740,992''"
    by (simp add: fmt_int_def grouped_def dec.simps asc_def)
  then have "format_number sample_py (CInt 9007199254740993) = asc ''9,007,199,254,740,992''"
    by (simp add: format_number_def float_of_int_text_2_53_1)
  moreover have "remove_commas (asc ''9,007,199,254,740,992'') \<noteq> int_str 9007199254740993"
    by (simp add: remove_commas_def int_str_def dec.simps asc_def)
  ultimately show ?thesis by simp
qed

lemma dec_one_digit: "n < 10 \<Longrightarrow> dec n = [48 + n]"
  by (simp add: dec.simps [of n])

lemma fmt_float1_shape:
  assumes "e < 0"
  shows "fmt_float1 (Fin m e) =
           (if m < 0 then [45] else [])
           @ grouped (dec (tenths (nat \<bar>m\<bar>) (nat (- e)) div 10))
           @ [46, 48 + tenths (nat \<bar>m\<bar>) (nat (- e)) mod 10]"
  using assms by (simp add: Let_def dec_one_digit)

text \<open>
  C6, as amended. A float cell whose value is not an integer, and more generally any
  cell that is not blank and parses to a finite double that is not an integer, is
  formatted as the sign, the grouped digits of the integer part, a decimal point and
  exactly one digit; the number of tenths \<open>t\<close> that is printed is at most one
  twentieth away from the value \<open>\<bar>m\<bar> / 2 ^ (- e)\<close>, that is, the value is rounded
  to one place. A cell that parses to an integral double is formatted without a
  decimal point, whatever fraction its text shows.
\<close>

theorem fractions_format_one_decimal:
  "(\<not> is_integer (Fin m e) \<longrightarrow>
      (\<exists>body t. format_number py (CFloat (Fin m e))
                   = (if m < 0 then [45] else []) @ body @ [46, 48 + t mod 10]
           \<and> well_grouped body \<and> remove_commas body = dec (t div 10)
           \<and> e < 0 \<and> 2 * \<bar>int t * 2 ^ nat (- e) - 10 * \<bar>m\<bar>\<bar> \<le> 2 ^ nat (- e)))
   \<and> (v \<noteq> CStr placeholder \<and> v \<noteq> CStr [] \<and> v \<noteq> CNone
        \<and> to_float py v = Some (Fin m e) \<and> \<not> is_integer (Fin m e) \<longrightarrow>
      (\<exists>body t. format_number py v = (if m < 0 then [45] else []) @ body @ [46, 48 + t mod 10]
           \<and> well_grouped body \<and> remove_commas body = dec (t div 10)
           \<and> e < 0 \<and> 2 * \<bar>int t * 2 ^ nat (- e) - 10 * \<bar>m\<bar>\<bar> \<le> 2 ^ nat (- e)))
   \<and> (v \<noteq> CStr placeholder \<and> v \<noteq> CStr [] \<and> v \<noteq> CNone
        \<and> to_float py v = Some (Fin m e) \<and> is_integer (Fin m e) \<longrightarrow>
      46 \<notin> set (format_number py v))"
proof -
  let ?t = "tenths (nat \<bar>m\<bar>) (nat (- e))"
  have shape: "\<exists>body t. format_number py w = (if m < 0 then [45] else []) @ body @ [46, 48 + t mod 10]
           \<and> well_grouped body \<and> remove_commas body = dec (t div 10)
           \<and> e < 0 \<and> 2 * \<bar>int t * 2 ^ nat (- e) - 10 * \<bar>m\<bar>\<bar> \<le> 2 ^ nat (- e)"
    if w: "w \<noteq> CStr placeholder" "w \<noteq> CStr []" "w \<noteq> CNone"
      "to_float py w = Some (Fin m e)" and ni: "\<not> is_integer (Fin m e)" for w
  proof -
    from ni have e: "e < 0" by (cases "0 \<le> e") auto
    have f: "format_number py w = fmt_float1 (Fin m e)"
      using w ni by (simp add: format_number_def)
    have "2 * \<bar>int ?t * 2 ^ nat (- e) - int (nat \<bar>m\<bar> * 10)\<bar> \<le> 2 ^ nat (- e)"
      unfolding tenths_def by (rule round_half_even_near)
    then have n: "2 * \<bar>int ?t * 2 ^ nat (- e) - 10 * \<bar>m\<bar>\<bar> \<le> 2 ^ nat (- e)"
      by (simp add: mult.commute)
    have "well_grouped (grouped (dec (?t div 10)))"
      by (rule well_grouped_grouped [OF dec_all_digits dec_nonempty])
    moreover have "remove_commas (grouped (dec (?t div 10))) = dec (?t div 10)"
      by (rule remove_commas_grouped [OF dec_all_digits])
    ultimately show ?thesis
      using e n unfolding f fmt_float1_shape [OF e] by blast
  qed
  have 1: "\<not> is_integer (Fin m e) \<longrightarrow>
      (\<exists>body t. format_number py (CFloat (Fin m e))
                   = (if m < 0 then [45] else []) @ body @ [46, 48 + t mod 10]
           \<and> well_grouped body \<and> remove_commas body = dec (t div 10)
           \<and> e < 0 \<and> 2 * \<bar>int t * 2 ^ nat (- e) - 10 * \<bar>m\<bar>\<bar> \<le> 2 ^ nat (- e))"
    using shape [of "CFloat (Fin m e)"] by simp
  have 3: "v \<noteq> CStr placeholder \<and> v \<noteq> CStr [] \<and> v \<noteq> CNone
        \<and> to_float py v = Some (Fin m e) \<and> is_integer (Fin m e) \<longrightarrow>
      46 \<notin> set (format_number py v)"
    using fmt_int_no_point by (simp add: format_number_integral)
  from 1 shape [of v] 3 show ?thesis by blast
qed

theorem fractions_format_one_decimal_witness:
  "format_number sample_py (CFloat (Fin 2714826150374277 (- 41))) = asc ''1,234.6''
   \<and> (\<exists>body t. asc ''1,234.6'' = body @ [46, 48 + t mod 10]
         \<and> well_grouped body \<and> remove_commas body = dec (t div 10)
         \<and> 2 * \<bar>int t * 2 ^ 41 - 10 * 2714826150374277\<bar> \<le> (2 ^ 41 :: int))"
proof -
  have f: "format_number sample_py (CFloat (Fin 2714826150374277 (- 41))) = asc ''1,234.6''"
    by (simp add: format_number_def tenths_def round_half_even_def grouped_def dec.simps
        asc_def Let_def)
  have h: "\<not> is_integer (Fin 2714826150374277 (- 41))" by simp
  from fractions_format_one_decimal [of 2714826150374277 "- 41" sample_py CNone]
  show ?thesis unfolding f using h by simp
qed

theorem fraction_in_text_lost_counterexample:
  "remove_commas (asc ''9,007,199,254,740,993.5'') = asc ''9007199254740993.5''
   \<and> format_number parsing_py (CStr (asc ''9,007,199,254,740,993.5''))
       = asc ''9,007,199,254,740,994''
   \<and> 46 \<notin> set (format_number parsing_py (CStr (asc ''9,007,199,254,740,993.5'')))"
proof -
  have r: "remove_commas (asc ''9,007,199,254,740,993.5'') = asc ''9007199254740993.5''"
    by (simp add: remove_commas_def asc_def)
  have "fmt_int 9007199254740994 = asc ''9,007,199,254,740,994''"
    by (simp add: fmt_int_def grouped_def dec.simps asc_def)
  moreover have "to_float parsing_py (CStr (asc ''9,007,199,254,740,993.5''))
       = Some (Fin 4503599627370497 1)"
    by (simp add: r parsing_py_def)
  moreover have "CStr (asc ''9,007,199,254,740,993.5'') \<noteq> CStr placeholder"
    by (simp add: asc_def placeholder_def)
  moreover have "CStr (asc ''9,007,199,254,740,993.5'') \<noteq> CStr []"
    by (simp add: asc_def)
  ultimately have f: "format_number parsing_py (CStr (asc ''9,007,199,254,740,993.5''))
       = asc ''9,007,199,254,740,994''"
    by (simp add: format_number_integral)
  have "46 \<notin> set (asc ''9,007,199,254,740,994'')" by (simp add: asc_def)
  with r f show ?thesis by simp
qed

section \<open>The sample worksheets\<close>

lemmas sample_eval =
  sample_sheet_def grid_def read_sheet_def row_step_def row_data_def data_columns_def
  header_years_def cell_text_def is_total_label_def format_number_def sample_py_def
  soukei_def goukei_def kei_def placeholder_def asc_def Let_def

lemma read_sample_sheet:
  "read_sheet sample_py sample_sheet =
     \<lparr>years = [asc ''2009'', kei],
      prefectures = [(CStr (asc ''A''), [asc ''596'', placeholder, asc ''x'']),
                     (CStr (asc ''B''), [placeholder, placeholder, asc ''0''])],
      total_row = Some [asc ''4'', asc ''5'', asc ''6'']\<rparr>"
  by (simp add: sample_eval)

lemma format_number_small_int: "\<bar>n\<bar> < 2 ^ 53 \<Longrightarrow> format_number py (CInt n) = fmt_int n"
  by (simp add: format_number_def float_of_int_text_small)

lemma read_report_sheet:
  "read_sheet sample_py report_sheet =
     \<lparr>years = [asc ''2009'', asc ''2010'', kei],
      prefectures = [(CStr [0x5317, 0x6D77, 0x9053], [asc ''596'', asc ''654'', asc ''1,250''])],
      total_row = Some [asc ''596'', asc ''654'', asc ''1,250'']\<rparr>"
  by (simp add: report_sheet_def grid_def read_sheet_def row_step_def row_data_def
      data_columns_def header_years_def cell_text_def is_total_label_def
      format_number_small_int fmt_int_def grouped_def int_str_def dec.simps
      soukei_def goukei_def kei_def asc_def Let_def)

lemma read_sample_workbook:
  "read_excel_data sample_py sample_workbook =
     [(asc ''EV'', read_sheet sample_py sample_sheet),
      (asc ''FCV'', read_sheet sample_py report_sheet)]"
  by (simp add: read_excel_data_def sample_workbook_def asc_def)

section \<open>Detection of the total row\<close>

lemma row_step_cases:
  "row_step py ws st r =
     (if \<not> truthy (cell_value ws r 1) then st
      else if is_total_label py (cell_value ws r 1) then (fst st, Some (row_data py ws r))
      else (store_row py ws (fst st) r, snd st))"
  by (simp add: row_step_def store_row_def Let_def)

lemma foldl_row_step:
  "foldl (row_step py ws) st rs =
     (foldl (store_row py ws) (fst st)
        (filter (\<lambda>r. \<not> is_total_label py (cell_value ws r 1))
           (filter (\<lambda>r. truthy (cell_value ws r 1)) rs)),
      (let ts = filter (\<lambda>r. is_total_label py (cell_value ws r 1))
                  (filter (\<lambda>r. truthy (cell_value ws r 1)) rs)
       in if ts = [] then snd st else Some (row_data py ws (last ts))))"
proof (induction rs arbitrary: st)
  case Nil
  then show ?case by simp
next
  case (Cons r rs)
  show ?case
    unfolding foldl_Cons Cons.IH
    by (simp add: row_step_cases Let_def)
qed

lemma dict_set_keys: "fst ` set (dict_set eq k v d) \<subseteq> insert k (fst ` set d)"
  by (induction d) (force split: if_splits)+

lemma dict_set_values: "snd ` set (dict_set eq k v d) \<subseteq> insert v (snd ` set d)"
  by (induction d) (force split: if_splits)+

lemma store_rows_keys:
  "fst ` set (foldl (store_row py ws) d rs) \<subseteq> fst ` set d \<union> (\<lambda>r. cell_value ws r 1) ` set rs"
proof (induction rs arbitrary: d)
  case Nil
  then show ?case by simp
next
  case (Cons r rs)
  have "fst ` set (foldl (store_row py ws) (store_row py ws d r) rs)
          \<subseteq> fst ` set (store_row py ws d r) \<union> (\<lambda>r. cell_value ws r 1) ` set rs"
    by (rule Cons.IH)
  moreover have "fst ` set (store_row py ws d r) \<subseteq> insert (cell_value ws r 1) (fst ` set d)"
    unfolding store_row_def by (rule dict_set_keys)
  ultimately show ?case by auto
qed

lemma read_sheet_total:
  "total_row (read_sheet py ws) =
     (if total_rows py ws = [] then None
      else Some (row_data py ws (last (total_rows py ws))))"
  by (simp add: read_sheet_def foldl_row_step total_rows_def extracted_rows_def Let_def)

lemma read_sheet_prefectures:
  "prefectures (read_sheet py ws) = foldl (store_row py ws) [] (plain_rows py ws)"
  by (simp add: read_sheet_def foldl_row_step plain_rows_def extracted_rows_def Let_def)

text \<open>
  C5. The total row of a loaded sheet is the value sequence of the last extracted row
  whose label contains a total marker (none when no label does); the rows mapping is
  built from the other extracted rows only, and none of its labels contains a marker.
\<close>

theorem total_label_row_becomes_aggregate:
  "total_row (read_sheet py ws) =
     (if total_rows py ws = [] then None
      else Some (row_data py ws (last (total_rows py ws))))
   \<and> prefectures (read_sheet py ws) = foldl (store_row py ws) [] (plain_rows py ws)
   \<and> (\<forall>kv \<in> set (prefectures (read_sheet py ws)). \<not> is_total_label py (fst kv))"
proof -
  have "fst ` set (prefectures (read_sheet py ws))
          \<subseteq> (\<lambda>r. cell_value ws r 1) ` set (plain_rows py ws)"
    unfolding read_sheet_prefectures
    using store_rows_keys [of py ws "[]" "plain_rows py ws"] by simp
  then have "\<forall>kv \<in> set (prefectures (read_sheet py ws)). \<not> is_total_label py (fst kv)"
    by (auto simp: plain_rows_def)
  with read_sheet_total read_sheet_prefectures show ?thesis by simp
qed

theorem total_label_row_becomes_aggregate_witness:
  "total_rows sample_py sample_sheet = [3, 6]
   \<and> total_row (read_sheet sample_py sample_sheet) = Some (row_data sample_py sample_sheet 6)
   \<and> row_data sample_py sample_sheet 6 = [asc ''4'', asc ''5'', asc ''6'']
   \<and> plain_rows sample_py sample_sheet = [2, 5]
   \<and> map fst (prefectures (read_sheet sample_py sample_sheet)) = [CStr (asc ''A''), CStr (asc ''B'')]"
proof -
  have 1: "total_rows sample_py sample_sheet = [3, 6]"
    by (simp add: total_rows_def extracted_rows_def sample_eval)
  have 2: "plain_rows sample_py sample_sheet = [2, 5]"
    by (simp add: plain_rows_def extracted_rows_def sample_eval)
  have 3: "row_data sample_py sample_sheet 6 = [asc ''4'', asc ''5'', asc ''6'']"
    by (simp add: sample_eval)
  have 4: "foldl (store_row sample_py sample_sheet) [] [2, 5] =
      [(CStr (asc ''A''), [asc ''596'', placeholder, asc ''x'']),
       (CStr (asc ''B''), [placeholder, placeholder, asc ''0''])]"
    by (simp add: store_row_def sample_eval)
  from total_label_row_becomes_aggregate [of sample_py sample_sheet]
  show ?thesis unfolding 1 2 4 by (simp add: 3)
qed

section \<open>The shape of a loaded sheet\<close>

lemma data_columns_length: "length (data_columns ws) = max_column ws - 1"
  by (simp only: data_columns_def length_upt)

lemma row_data_length: "length (row_data py ws r) = max_column ws - 1"
  by (simp add: row_data_def data_columns_length)

lemma header_years_length: "length (header_years py ws) \<le> max_column ws - 1"
proof -
  have "length (header_years py ws) \<le> length (data_columns ws)"
    unfolding header_years_def by (simp add: order_trans [OF length_filter_le])
  then show ?thesis by (simp add: data_columns_length)
qed

lemma foldl_row_step_total:
  "snd (foldl (row_step py ws) st rs) = Some t \<Longrightarrow>
   snd st = Some t \<or> length t = max_column ws - 1"
proof (induction rs arbitrary: st)
  case Nil
  then show ?case by simp
next
  case (Cons r rs)
  from Cons.IH [OF Cons.prems [simplified]]
  show ?case by (auto simp: row_step_def Let_def row_data_length split: if_splits)
qed

lemma store_rows_values:
  "snd ` set (foldl (store_row py ws) d rs) \<subseteq> snd ` set d \<union> row_data py ws ` set rs"
proof (induction rs arbitrary: d)
  case Nil
  then show ?case by simp
next
  case (Cons r rs)
  have "snd ` set (foldl (store_row py ws) (store_row py ws d r) rs)
          \<subseteq> snd ` set (store_row py ws d r) \<union> row_data py ws ` set rs"
    by (rule Cons.IH)
  moreover have "snd ` set (store_row py ws d r) \<subseteq> insert (row_data py ws r) (snd ` set d)"
    unfolding store_row_def by (rule dict_set_values)
  ultimately show ?case by auto
qed

lemma read_sheet_row_lengths:
  assumes "kv \<in> set (prefectures (read_sheet py ws))"
  shows "length (snd kv) = max_column ws - 1"
proof -
  have "snd ` set (prefectures (read_sheet py ws)) \<subseteq> row_data py ws ` set (plain_rows py ws)"
    unfolding read_sheet_prefectures
    using store_rows_values [of py ws "[]" "plain_rows py ws"] by simp
  with assms have "snd kv \<in> row_data py ws ` set (plain_rows py ws)" by blast
  then obtain r where "snd kv = row_data py ws r" by blast
  then show ?thesis by (simp add: row_data_length)
qed

lemma read_sheet_total_length:
  assumes "total_row (read_sheet py ws) = Some t"
  shows "length t = max_column ws - 1"
  using assms foldl_row_step_total [of py ws "([], None)" _ t]
  by (simp add: read_sheet_def Let_def)

lemma header_years_full:
  assumes "\<forall>c \<in> set (data_columns ws). truthy (cell_value ws 1 c)"
  shows "length (header_years py ws) = max_column ws - 1"
proof -
  have "filter truthy (map (cell_value ws 1) (data_columns ws)) = map (cell_value ws 1) (data_columns ws)"
    using assms by (simp add: filter_id_conv)
  then show ?thesis by (simp add: header_years_def data_columns_length)
qed

lemma dict_set_eq_set: "set (dict_set (=) k v d) \<subseteq> insert (k, v) (set d)"
  by (induction d) (auto split: if_splits)

lemma read_excel_data_entries:
  "(name, d) \<in> set (foldl (\<lambda>data (sheet_name, ws). dict_set (=) sheet_name (read_sheet py ws) data) acc wb)
   \<Longrightarrow> (name, d) \<in> set acc \<or> (\<exists>ws. (name, ws) \<in> set wb \<and> d = read_sheet py ws)"
proof (induction wb arbitrary: acc)
  case Nil
  then show ?case by simp
next
  case (Cons x wb)
  obtain n ws where x: "x = (n, ws)" by (cases x)
  from Cons.prems have "(name, d) \<in> set (dict_set (=) n (read_sheet py ws) acc)
      \<or> (\<exists>ws. (name, ws) \<in> set wb \<and> d = read_sheet py ws)"
    using Cons.IH [of "dict_set (=) n (read_sheet py ws) acc"] by (simp add: x)
  then show ?case using dict_set_eq_set [of n "read_sheet py ws" acc] by (auto simp: x)
qed

text \<open>
  C2, as amended. Every sheet in the result of \<open>read_excel_data\<close> was read from a
  worksheet of that name; each of its rows, and its total row when there is one, has
  one value for every column from the second to the last; its periods are at most as
  many, and exactly as many when no header cell in these columns is empty (or false).
\<close>

theorem loaded_rows_span_all_columns:
  assumes "(name, d) \<in> set (read_excel_data py wb)"
  shows "\<exists>ws. (name, ws) \<in> set wb \<and> d = read_sheet py ws
           \<and> (\<forall>kv \<in> set (prefectures d). length (snd kv) = max_column ws - 1)
           \<and> (\<forall>t. total_row d = Some t \<longrightarrow> length t = max_column ws - 1)
           \<and> length (years d) \<le> max_column ws - 1
           \<and> ((\<forall>c \<in> set (data_columns ws). truthy (cell_value ws 1 c))
                \<longrightarrow> length (years d) = max_column ws - 1)"
proof -
  from assms obtain ws where ws: "(name, ws) \<in> set wb" "d = read_sheet py ws"
    using read_excel_data_entries [of name d py "[]" wb] by (auto simp: read_excel_data_def)
  have y: "years d = header_years py ws" by (simp add: ws(2) read_sheet_def Let_def)
  have 1: "\<forall>kv \<in> set (prefectures d). length (snd kv) = max_column ws - 1"
    using read_sheet_row_lengths [of _ py ws] by (simp add: ws(2))
  have 2: "\<forall>t. total_row d = Some t \<longrightarrow> length t = max_column ws - 1"
    using read_sheet_total_length [of py ws] by (simp add: ws(2))
  have 3: "length (years d) \<le> max_column ws - 1"
    using header_years_length [of py ws] by (simp add: y)
  have 4: "(\<forall>c \<in> set (data_columns ws). truthy (cell_value ws 1 c))
             \<longrightarrow> length (years d) = max_column ws - 1"
    using header_years_full [of ws py] by (simp add: y)
  from ws 1 2 3 4 show ?thesis by blast
qed

theorem loaded_rows_span_all_columns_witness:
  "(asc ''FCV'', read_sheet sample_py report_sheet) \<in> set (read_excel_data sample_py sample_workbook)
   \<and> (\<exists>ws. (asc ''FCV'', ws) \<in> set sample_workbook
         \<and> read_sheet sample_py report_sheet = read_sheet sample_py ws
         \<and> (\<forall>kv \<in> set (prefectures (read_sheet sample_py report_sheet)).
               length (snd kv) = max_column ws - 1)
         \<and> length (years (read_sheet sample_py report_sheet)) \<le> max_column ws - 1)"
proof -
  have h: "(asc ''FCV'', read_sheet sample_py report_sheet)
             \<in> set (read_excel_data sample_py sample_workbook)"
    by (simp add: read_sample_workbook)
  from loaded_rows_span_all_columns [OF h] h show ?thesis by blast
qed

theorem row_length_equals_periods_counterexample:
  "read_excel_data sample_py [(asc ''EV'', sample_sheet)] =
     [(asc ''EV'',
       \<lparr>years = [asc ''2009'', kei],
        prefectures = [(CStr (asc ''A''), [asc ''596'', placeholder, asc ''x'']),
                       (CStr (asc ''B''), [placeholder, placeholder, asc ''0''])],
        total_row = Some [asc ''4'', asc ''5'', asc ''6'']\<rparr>)]
   \<and> length [asc ''596'', placeholder, asc ''x''] \<noteq> length [asc ''2009'', kei]"
  by (simp add: read_excel_data_def read_sample_sheet)

section \<open>The written document\<close>

lemma tab_panels_pieces:
  assumes "\<forall>kv \<in> set data. years (snd kv) \<noteq> []"
  shows "\<exists>ps. tab_panels py i data = Inr ps
           \<and> (\<forall>kv \<in> set data. \<exists>j p pre post.
                  tab_panel py j (fst kv) (snd kv) = Inr p \<and> ps = pre @ p @ post)"
  using assms
proof (induction data arbitrary: i)
  case Nil
  then show ?case by simp
next
  case (Cons x rest)
  from Cons.prems have y: "years (snd x) \<noteq> []" by simp
  then obtain p where p: "tab_panel py i (fst x) (snd x) = Inr p"
    by (simp add: tab_panel_def)
  from Cons.prems have "\<forall>kv \<in> set rest. years (snd kv) \<noteq> []" by simp
  from Cons.IH [OF this, of "Suc i"] obtain ps where
    ps: "tab_panels py (Suc i) rest = Inr ps"
    and each: "\<forall>kv \<in> set rest. \<exists>j q pre post.
                 tab_panel py j (fst kv) (snd kv) = Inr q \<and> ps = pre @ q @ post"
    by blast
  have r: "tab_panels py i (x # rest) = Inr (p @ ps)" by (simp add: p ps)
  have "\<exists>j q pre post. tab_panel py j (fst kv) (snd kv) = Inr q \<and> p @ ps = pre @ q @ post"
    if kv: "kv \<in> set (x # rest)" for kv
  proof (cases "kv = x")
    case True
    have "p @ ps = [] @ p @ ps" by simp
    with p True show ?thesis by blast
  next
    case False
    with kv each obtain j q pre post where
      q: "tab_panel py j (fst kv) (snd kv) = Inr q" "ps = pre @ q @ post" by auto
    have "p @ ps = (p @ pre) @ q @ post" by (simp add: q(2))
    with q(1) show ?thesis by blast
  qed
  with r show ?case by blast
qed

lemma rendered_panel:
  assumes "\<forall>kv \<in> set data. years (snd kv) \<noteq> []" and "can_write ev out"
    and "(name, d) \<in> set data"
  shows "\<exists>doc before after j p.
           fst (snd (generate_html ev py data out t s)) = [Write out doc]
           \<and> snd (snd (generate_html ev py data out t s)) = None
           \<and> tab_panel py j name d = Inr p \<and> doc = before @ concat p @ after"
proof -
  from tab_panels_pieces [OF assms(1), of py 0] assms(3) obtain ps j p pre post where
    ps: "tab_panels py 0 data = Inr ps"
    and p: "tab_panel py j name d = Inr p" "ps = pre @ p @ post"
    by fastforce
  define b where "b = [template_head ev t s]
             @ map (\<lambda>(i, tab_name). tab_button i tab_name) (enumerate 0 (map fst data))
             @ [asc ''        </div>'' @ [10, 10]]"
  have h: "html_document ev py data t s = Inr (concat (b @ ps @ [template_script ev]))"
    by (simp add: html_document_def ps b_def)
  define doc where "doc = concat (b @ ps @ [template_script ev])"
  have g: "generate_html ev py data out t s =
             ([[0x2705] @ asc '' HTML''
                 @ [0x30D5, 0x30A1, 0x30A4, 0x30EB, 0x3092, 0x751F, 0x6210, 0x3057, 0x307E,
                    0x3057, 0x305F]
                 @ asc '': '' @ out,
               asc ''   Generated HTML file: '' @ out],
              [Write out doc], None)"
    using assms(2) by (simp add: generate_html_def h doc_def)
  have d: "doc = (concat b @ concat pre) @ concat p @ (concat post @ template_script ev)"
    by (simp add: doc_def p(2))
  have 1: "fst (snd (generate_html ev py data out t s)) = [Write out doc]"
    by (simp add: g)
  have 2: "snd (snd (generate_html ev py data out t s)) = None"
    by (simp add: g)
  from 1 2 p(1) d show ?thesis by blast
qed

lemma tab_panel_parts:
  assumes "tab_panel py j name d = Inr p"
  shows "\<exists>pre mid post.
           p = pre @ map year_header (years d) @ mid
                 @ concat (map (pref_row py) (prefectures d)) @ total_block d @ post
           \<and> length pre = 8 \<and> length mid = 3 \<and> length post = 4
           \<and> take 2 pre = [panel_comment name, panel_open j name]"
proof -
  let ?pre = \<open>[panel_comment name,
          panel_open j name,
          panel_heading name (hd (years d)) (last (years d)),
          asc ''            <div class="table-wrapper">'' @ [10],
          asc ''                <table>'' @ [10],
          asc ''                    <thead>'' @ [10],
          tr_open,
          asc ''                            <th>'' @ [0x90FD, 0x9053, 0x5E9C, 0x770C]
            @ asc ''</th>'' @ [10]]\<close>
  let ?mid = \<open>[tr_close,
            asc ''                    </thead>'' @ [10],
            asc ''                    <tbody>'' @ [10]]\<close>
  let ?post = \<open>[asc ''                    </tbody>'' @ [10],
            asc ''                </table>'' @ [10],
            asc ''            </div>'' @ [10],
            asc ''        </div>'' @ [10, 10]]\<close>
  from assms have "p = ?pre @ map year_header (years d) @ ?mid
                 @ concat (map (pref_row py) (prefectures d)) @ total_block d @ ?post"
    by (simp add: tab_panel_def split: if_splits)
  moreover have "length ?pre = 8" "length ?mid = 3" "length ?post = 4"
    "take 2 ?pre = [panel_comment name, panel_open j name]"
    by simp_all
  ultimately show ?thesis by blast
qed

section \<open>Column and row styling\<close>







section \<open>The identifier of a panel\<close>

theorem panel_id_unsanitized_counterexample:
  "id_attr (panel_open 0 (asc ''A B'')) = Some (asc ''A B'') \<and> \<not> safe_identifier (asc ''A B'')"
  by (simp add: id_attr_def panel_open_def asc_def active_class_def safe_identifier_def ident_char_def)

lemma takeWhile_to_quote:
  "takeWhile (\<lambda>c. c \<noteq> 34) (name @ 34 # rest) = takeWhile (\<lambda>c. c \<noteq> 34) name"
  by (induction name) auto

lemma id_attr_open_tag:
  \<open>id_attr (asc ''        <div id="'' @ name @ asc ''" class="tab-content '' @ a
             @ asc ''">'' @ [10])
     = Some (takeWhile (\<lambda>c. c \<noteq> 34) name)\<close>
  by (simp add: id_attr_def asc_def takeWhile_to_quote)

lemma safe_identifier_no_quote: "safe_identifier name \<Longrightarrow> takeWhile (\<lambda>c. c \<noteq> 34) name = name"
proof -
  assume "safe_identifier name"
  then have "\<forall>c \<in> set name. ident_char c" by (simp add: safe_identifier_def list_all_iff)
  moreover have "\<not> ident_char 34" by (simp add: ident_char_def)
  ultimately have "\<forall>c \<in> set name. c \<noteq> 34" by blast
  then show ?thesis by (simp add: takeWhile_eq_all_conv)
qed

text \<open>
  C3, as amended. The document written by \<open>generate_html\<close> holds, for every sheet,
  the opening tag of its panel with the sheet name itself between \<open>id="\<close> and the
  closing double quote: nothing sanitizes the name. Read back from the tag, the
  \<open>id\<close> attribute is the name up to its first double quote, so it is the name
  whenever the name is a safe identifier token.
\<close>

theorem panel_id_is_sheet_name:
  assumes "\<forall>kv \<in> set data. years (snd kv) \<noteq> []" and "can_write ev out"
    and "(name, d) \<in> set data"
  shows \<open>\<exists>doc before after j.
           fst (snd (generate_html ev py data out t s)) = [Write out doc]
           \<and> doc = before
                 @ (asc ''        <div id="'' @ name @ asc ''" class="tab-content ''
                    @ active_class j @ asc ''">'' @ [10])
                 @ after
           \<and> id_attr (asc ''        <div id="'' @ name @ asc ''" class="tab-content ''
                       @ active_class j @ asc ''">'' @ [10])
               = Some (takeWhile (\<lambda>c. c \<noteq> 34) name)
           \<and> (safe_identifier name \<longrightarrow>
                id_attr (asc ''        <div id="'' @ name @ asc ''" class="tab-content ''
                         @ active_class j @ asc ''">'' @ [10])
                = Some name)\<close>
proof -
  from rendered_panel [OF assms, of py t s] obtain doc before after j p where
    w: "fst (snd (generate_html ev py data out t s)) = [Write out doc]"
    and p: "tab_panel py j name d = Inr p" and doc: "doc = before @ concat p @ after"
    by blast
  from tab_panel_parts [OF p] obtain pre rest where
    pre: "p = pre @ rest" "length pre = 8" "take 2 pre = [panel_comment name, panel_open j name]"
    by blast
  from pre(2,3) obtain pre' where "pre = [panel_comment name, panel_open j name] @ pre'"
    by (metis append_take_drop_id)
  then have "concat p = panel_comment name @ panel_open j name @ concat (pre' @ rest)"
    by (simp add: pre(1))
  then have "doc = (before @ panel_comment name) @ panel_open j name
                     @ (concat (pre' @ rest) @ after)"
    by (simp add: doc)
  with w show ?thesis
    unfolding panel_open_def
    using id_attr_open_tag [of name "active_class j"] safe_identifier_no_quote [of name]
    by (intro exI [of _ doc] exI [of _ "before @ panel_comment name"]
          exI [of _ "concat (pre' @ rest) @ after"] exI [of _ j]) simp
qed

theorem panel_id_is_sheet_name_witness:
  \<open>\<exists>doc before after j.
     fst (snd (generate_html sample_env sample_py
                 [(asc ''A B'', read_sheet sample_py sample_sheet)]
                 (asc ''koufu.html'') page_title (page_subtitle (asc ''koufu.html''))))
       = [Write (asc ''koufu.html'') doc]
     \<and> doc = before
           @ (asc ''        <div id="'' @ asc ''A B'' @ asc ''" class="tab-content ''
              @ active_class j @ asc ''">'' @ [10])
           @ after\<close>
proof -
  have 1: "\<forall>kv \<in> set [(asc ''A B'', read_sheet sample_py sample_sheet)]. years (snd kv) \<noteq> []"
    by (simp add: read_sample_sheet)
  have 2: "can_write sample_env (asc ''koufu.html'')"
    by (simp add: sample_env_def)
  have 3: "(asc ''A B'', read_sheet sample_py sample_sheet)
             \<in> set [(asc ''A B'', read_sheet sample_py sample_sheet)]"
    by simp
  from panel_id_is_sheet_name [OF 1 2 3] show ?thesis by blast
qed

section \<open>The label of the rendered total row\<close>

lemma loaded_total_nonempty:
  assumes "years (read_sheet py ws) \<noteq> []" and "total_row (read_sheet py ws) = Some t"
  shows "t \<noteq> []"
proof -
  from assms(1) have "header_years py ws \<noteq> []" by (simp add: read_sheet_def Let_def)
  with header_years_length [of py ws] have "0 < max_column ws - 1" by (cases "header_years py ws") auto
  moreover from assms(2) have "length t = max_column ws - 1"
    using foldl_row_step_total [of py ws "([], None)" _ t] by (simp add: read_sheet_def Let_def)
  ultimately show ?thesis by auto
qed

text \<open>
  C10. For every sheet with a total row (not empty, or loaded from a worksheet), the
  document written by \<open>generate_html\<close> holds the opening of the total row followed
  by the label cell with the fixed text \<open>U+7DCF U+8A08\<close>, the cells of the values
  and the end of the row. The label of the source row is not in the sheet record at
  all.
\<close>

theorem total_row_label_is_fixed:
  assumes "\<forall>kv \<in> set data. years (snd kv) \<noteq> []" and "can_write ev out"
    and "(name, d) \<in> set data" and "total_row d = Some vs"
    and "vs \<noteq> [] \<or> (\<exists>py' ws. d = read_sheet py' ws)"
  shows \<open>\<exists>doc before after.
           fst (snd (generate_html ev py data out t s)) = [Write out doc]
           \<and> doc = before
                 @ (asc ''                        <tr class="total-row">'' @ [10])
                 @ (asc ''                            <td>'' @ [0x7DCF, 0x8A08] @ asc ''</td>''
                    @ [10])
                 @ concat (value_cells vs)
                 @ (asc ''                        </tr>'' @ [10])
                 @ after\<close>
proof -
  from assms(1,3) have y: "years d \<noteq> []" by auto
  have ne: "vs \<noteq> []" using assms(4,5) y loaded_total_nonempty by blast
  from rendered_panel [OF assms(1-3), of py t s] obtain doc before after j p where
    w: "fst (snd (generate_html ev py data out t s)) = [Write out doc]"
    and p: "tab_panel py j name d = Inr p" and doc: "doc = before @ concat p @ after"
    by blast
  from tab_panel_parts [OF p] obtain a b where ab: "p = a @ total_block d @ b"
    by (metis append.assoc)
  have tb: "total_block d = [tr_total_open, td_label soukei] @ value_cells vs @ [tr_close]"
    using assms(4) ne by (simp add: total_block_def)
  have "concat p = concat a @ tr_total_open @ td_label soukei @ concat (value_cells vs)
                     @ tr_close @ concat b"
    by (simp add: ab tb)
  then have "doc = (before @ concat a) @ tr_total_open @ td_label soukei
                     @ concat (value_cells vs) @ tr_close @ (concat b @ after)"
    by (simp add: doc)
  with w show ?thesis
    unfolding tr_total_open_def td_label_def soukei_def tr_close_def
    by (intro exI [of _ doc] exI [of _ "before @ concat a"] exI [of _ "concat b @ after"]) simp
qed

theorem total_row_label_is_fixed_witness:
  \<open>\<exists>doc before after.
     fst (snd (generate_html sample_env sample_py (read_excel_data sample_py sample_workbook)
                 (asc ''koufu.html'') page_title (page_subtitle (asc ''koufu.html''))))
       = [Write (asc ''koufu.html'') doc]
     \<and> doc = before
           @ (asc ''                        <tr class="total-row">'' @ [10])
           @ (asc ''                            <td>'' @ [0x7DCF, 0x8A08] @ asc ''</td>''
              @ [10])
           @ concat (value_cells [asc ''4'', asc ''5'', asc ''6''])
           @ (asc ''                        </tr>'' @ [10])
           @ after\<close>
proof -
  have 1: "\<forall>kv \<in> set (read_excel_data sample_py sample_workbook). years (snd kv) \<noteq> []"
    by (simp add: read_sample_workbook read_sample_sheet read_report_sheet)
  have 2: "can_write sample_env (asc ''koufu.html'')"
    by (simp add: sample_env_def)
  have 3: "(asc ''EV'', read_sheet sample_py sample_sheet)
             \<in> set (read_excel_data sample_py sample_workbook)"
    by (simp add: read_sample_workbook)
  have 4: "total_row (read_sheet sample_py sample_sheet) = Some [asc ''4'', asc ''5'', asc ''6'']"
    by (simp add: read_sample_sheet)
  have 5: "[asc ''4'', asc ''5'', asc ''6''] \<noteq> []
             \<or> (\<exists>py' ws. read_sheet sample_py sample_sheet = read_sheet py' ws)"
    by simp
  from total_row_label_is_fixed [OF 1 2 3 4 5] show ?thesis by blast
qed

section \<open>Command line arguments\<close>

theorem usage_only_below_two_arguments_counterexample:
  "stdout (main sample_env sample_py [asc ''prog'', asc ''a.xlsx'', asc ''b.html'', asc ''c'']) \<noteq> usage
   \<and> fs_ops (main sample_env sample_py [asc ''prog'', asc ''a.xlsx'', asc ''b.html'', asc ''c''])
       = [Stat (asc ''a.xlsx'')]"
  by (simp add: main_def sample_env_def usage_def not_found_lines_def Let_def)

lemma main_not_usage:
  assumes "3 \<le> length argv"
  shows "stdout (main ev py argv) \<noteq> usage \<and> fs_ops (main ev py argv) \<noteq> []"
proof -
  have "reading_lines f @ rest \<noteq> usage" for f rest
    by (simp add: reading_lines_def usage_def)
  moreover have "reading_lines f \<noteq> usage" for f
    by (simp add: reading_lines_def usage_def)
  moreover have "not_found_lines f \<noteq> usage" for f
    by (simp add: not_found_lines_def usage_def)
  ultimately show ?thesis using assms
    by (auto simp: main_def Let_def split: option.splits)
qed

text \<open>
  C4, as amended. With fewer than two arguments the program prints the usage text and
  exits with status 1 without a file system operation. With more than two it does what
  it does with the first two: the other arguments are ignored, the usage text is not
  what it prints, and the file system is consulted.
\<close>

theorem usage_below_two_arguments:
  "(length argv < 3 \<longrightarrow> main ev py argv = \<lparr>stdout = usage, fs_ops = [], outcome = Exit 1\<rparr>)
   \<and> (3 \<le> length argv \<longrightarrow>
        main ev py argv = main ev py (take 3 argv)
        \<and> stdout (main ev py argv) \<noteq> usage \<and> fs_ops (main ev py argv) \<noteq> [])"
proof -
  have "main ev py argv = main ev py (take 3 argv)" if "3 \<le> length argv"
    using that by (simp add: main_def)
  then show ?thesis using main_not_usage [of argv ev py] by (simp add: main_def)
qed

theorem usage_below_two_arguments_witness:
  "main sample_env sample_py [asc ''prog'', asc ''a.xlsx'']
     = \<lparr>stdout = usage, fs_ops = [], outcome = Exit 1\<rparr>
   \<and> main sample_env sample_py [asc ''prog'', asc ''a.xlsx'', asc ''b.html'', asc ''c'']
     = main sample_env sample_py [asc ''prog'', asc ''a.xlsx'', asc ''b.html'']"
  using usage_below_two_arguments [of "[asc ''prog'', asc ''a.xlsx'']" sample_env sample_py]
        usage_below_two_arguments [of "[asc ''prog'', asc ''a.xlsx'', asc ''b.html'', asc ''c'']" sample_env sample_py]
  by simp

end
